theory Spec2Isabelle
  imports Main
begin

section \<open>Strings\<close>

text \<open>
  The program is \<^verbatim>\<open>gettext-tools/machine-translation/prototype/ollama-spit.py\<close>.
  Command-line strings are modelled as \<^typ>\<open>string\<close>: a \<^typ>\<open>char\<close> stands for
  one code point in the range 0..255.  Text that is read from standard input or decoded
  from the network may hold any code point, so it is a list of code points
  (\<open>pystr\<close>); \<open>cps\<close> turns a command-line string into such a list.
\<close>

type_synonym pystr = "nat list"

definition cps :: "string \<Rightarrow> pystr" where
  "cps s = map of_char s"

text \<open>Python's \<^verbatim>\<open>str.startswith\<close> and \<^verbatim>\<open>str.endswith\<close>.\<close>

definition startswith :: "'a list \<Rightarrow> 'a list \<Rightarrow> bool" where
  "startswith s p = (take (length p) s = p)"

definition endswith :: "'a list \<Rightarrow> 'a list \<Rightarrow> bool" where
  "endswith s p = (length p \<le> length s \<and> drop (length s - length p) s = p)"

text \<open>
  \<^verbatim>\<open>s.partition('=')\<close>: the part before the first separator, whether the
  separator was found, and the part after it.
\<close>

fun partition_eq :: "string \<Rightarrow> string \<times> bool \<times> string" where
  "partition_eq [] = ([], False, [])"
| "partition_eq (c # cs) =
     (if c = CHR ''='' then ([], True, cs)
      else (case partition_eq cs of (a, sep, b) \<Rightarrow> (c # a, sep, b)))"

section \<open>The argument parser that \<open>main\<close> declares\<close>

text \<open>
  \<open>main\<close> builds an \<^verbatim>\<open>argparse.ArgumentParser(prog='spit', usage='spit --help',
  add_help=False)\<close> and adds four arguments.  They are the values of \<open>action\<close>; the
  functions below give what each \<^verbatim>\<open>add_argument\<close> call sets.
\<close>

datatype action = Act_url | Act_model | Act_help | Act_non_option_arguments

datatype nargs = Nargs_None | Nargs_Int nat | Nargs_ZeroOrMore

fun option_strings :: "action \<Rightarrow> string list" where
  "option_strings Act_url = [''--url'']"
| "option_strings Act_model = [''--model'']"
| "option_strings Act_help = [''--help'', ''--hel'', ''--he'', ''--h'']"
| "option_strings Act_non_option_arguments = []"

text \<open>
  \<^verbatim>\<open>--url\<close> is a store action with the default \<^verbatim>\<open>nargs=None\<close>, \<^verbatim>\<open>--model\<close> has
  \<^verbatim>\<open>nargs=1\<close>, \<^verbatim>\<open>store_true\<close> has \<^verbatim>\<open>nargs=0\<close>, the positional has \<^verbatim>\<open>nargs='*'\<close>.
\<close>

fun nargs_of :: "action \<Rightarrow> nargs" where
  "nargs_of Act_url = Nargs_None"
| "nargs_of Act_model = Nargs_Int 1"
| "nargs_of Act_help = Nargs_Int 0"
| "nargs_of Act_non_option_arguments = Nargs_ZeroOrMore"

text \<open>
  A positional with \<^verbatim>\<open>nargs='*'\<close> and no \<^verbatim>\<open>default\<close> keyword is marked required by
  \<^verbatim>\<open>_get_positional_kwargs\<close>; optionals are not required unless asked.
\<close>

fun required :: "action \<Rightarrow> bool" where
  "required Act_non_option_arguments = True"
| "required _ = False"

definition parser_actions :: "action list" where
  "parser_actions = [Act_url, Act_model, Act_help, Act_non_option_arguments]"

text \<open>\<^verbatim>\<open>parser._option_string_actions\<close>, in insertion order.\<close>

definition option_string_actions :: "(string \<times> action) list" where
  "option_string_actions =
     concat (map (\<lambda>a. map (\<lambda>s. (s, a)) (option_strings a)) parser_actions)"

text \<open>
  The namespace that \<^verbatim>\<open>parse_known_args\<close> returns.  The defaults are those of the
  \<^verbatim>\<open>add_argument\<close> calls; the positional has none before it is consumed.
\<close>

record cmdargs =
  cmd_url :: string
  cmd_model :: "string list option"
  cmd_help :: "bool option"
  cmd_non_option_arguments :: "string list option"

definition default_namespace :: cmdargs where
  "default_namespace =
     \<lparr>cmd_url = ''http://localhost:11434'', cmd_model = None, cmd_help = None,
      cmd_non_option_arguments = None\<rparr>"

text \<open>
  The errors of \<^verbatim>\<open>argparse\<close>: \<^verbatim>\<open>parser.error\<close> prints the usage line and the message
  on standard error and exits with status 2.
\<close>

datatype argparse_error =
    Ambiguous_option string "string list"
  | Expected_one_argument action
  | Expected_n_arguments action nat
  | Ignored_explicit_argument action string
  | Arguments_required "action list"

subsection \<open>Recognising option strings\<close>

text \<open>
  An option tuple is \<^verbatim>\<open>(action, option_string, explicit_arg)\<close>; the action is
  \<open>None\<close> for a string that looks like an option and is none of the parser's.
\<close>

type_synonym option_tuple = "action option \<times> string \<times> string option"

definition is_digit :: "char \<Rightarrow> bool" where
  "is_digit c = (48 \<le> (of_char c :: nat) \<and> (of_char c :: nat) \<le> 57)"

text \<open>
  \<^verbatim>\<open>_negative_number_matcher = re.compile(r'^-\d+$|^-\d*\.\d+$')\<close>, used with
  \<^verbatim>\<open>match\<close>.  Among the code points below 256 the class \<^verbatim>\<open>\d\<close> holds the ten
  ASCII digits; \<^verbatim>\<open>$\<close> also matches before a newline that ends the string.
\<close>

definition digits_body :: "string \<Rightarrow> bool" where
  "digits_body r =
     ((r \<noteq> [] \<and> list_all is_digit r) \<or>
      (case dropWhile is_digit r of
         c # fs \<Rightarrow> c = CHR ''.'' \<and> fs \<noteq> [] \<and> list_all is_digit fs
       | [] \<Rightarrow> False))"

definition negative_number_matcher :: "string \<Rightarrow> bool" where
  "negative_number_matcher s =
     (case s of
        [] \<Rightarrow> False
      | c # r \<Rightarrow> c = CHR ''-'' \<and>
          (digits_body r \<or> (r \<noteq> [] \<and> last r = CHR 0x0A \<and> digits_body (butlast r))))"

text \<open>
  \<^verbatim>\<open>_get_option_tuples\<close> (with \<^verbatim>\<open>allow_abbrev\<close>, the default): every declared option
  string that the given one abbreviates.  It is called on strings of at least two
  characters that start with \<^verbatim>\<open>-\<close>.
\<close>

definition get_option_tuples :: "string \<Rightarrow> option_tuple list" where
  "get_option_tuples option_string =
     (case option_string of
        c0 # c1 # _ \<Rightarrow>
          if c0 = CHR ''-'' \<and> c1 = CHR ''-'' then
            (case partition_eq option_string of
               (option_prefix, sep, explicit_arg) \<Rightarrow>
                 map (\<lambda>(os, a). (Some a, os, if sep then Some explicit_arg else None))
                   (filter (\<lambda>(os, a). startswith os option_prefix) option_string_actions))
          else if c0 = CHR ''-'' then
            concat (map (\<lambda>(os, a).
                if os = take 2 option_string then [(Some a, os, Some (drop 2 option_string))]
                else if startswith os option_string then [(Some a, os, None)]
                else []) option_string_actions)
          else []
      | _ \<Rightarrow> [])"

text \<open>
  \<^verbatim>\<open>_parse_optional\<close>: \<open>Inr None\<close> says that the string is a positional argument,
  \<open>Inl\<close> is the call of \<^verbatim>\<open>self.error\<close> for an ambiguous abbreviation.
\<close>

definition parse_optional :: "string \<Rightarrow> argparse_error + option_tuple option" where
  "parse_optional arg_string =
     (if arg_string = [] then Inr None
      else if hd arg_string \<noteq> CHR ''-'' then Inr None
      else (case map_of option_string_actions arg_string of
         Some a \<Rightarrow> Inr (Some (Some a, arg_string, None))
       | None \<Rightarrow>
          if length arg_string = 1 then Inr None
          else (case partition_eq arg_string of
            (option_string, sep, explicit_arg) \<Rightarrow>
              (case (if sep then map_of option_string_actions option_string else None) of
                 Some a \<Rightarrow> Inr (Some (Some a, option_string, Some explicit_arg))
               | None \<Rightarrow>
                  (let option_tuples = get_option_tuples arg_string in
                   if length option_tuples > 1 then
                     Inl (Ambiguous_option arg_string (map (\<lambda>t. fst (snd t)) option_tuples))
                   else if length option_tuples = 1 then Inr (Some (hd option_tuples))
                   else if negative_number_matcher arg_string then Inr None
                   else if CHR '' '' \<in> set arg_string then Inr None
                   else Inr (Some (None, arg_string, None)))))))"

subsection \<open>Matching argument counts\<close>

text \<open>
  \<^verbatim>\<open>_get_nargs_pattern\<close> gives \<^verbatim>\<open>(-*A-*)\<close> for \<^verbatim>\<open>nargs=None\<close>,
  \<^verbatim>\<open>(-*A-*A-* ... -*)\<close> for a number and \<^verbatim>\<open>(-*[A-]*)\<close> for \<^verbatim>\<open>'*'\<close>; for an
  action with option strings every \<^verbatim>\<open>-*\<close> and \<^verbatim>\<open>-\<close> is removed.  \<open>nargs_match\<close>
  is \<^verbatim>\<open>re.match\<close> of that pattern on a string over \<^verbatim>\<open>A\<close>, \<^verbatim>\<open>O\<close>, \<^verbatim>\<open>-\<close>: the
  length of the group, or \<open>None\<close> when there is no match.
\<close>

definition dashes :: "bool \<Rightarrow> string \<Rightarrow> nat" where
  "dashes d p = (if d then length (takeWhile (\<lambda>c. c = CHR ''-'') p) else 0)"

fun match_n :: "bool \<Rightarrow> nat \<Rightarrow> string \<Rightarrow> nat option" where
  "match_n d 0 p = Some 0"
| "match_n d (Suc n) [] = None"
| "match_n d (Suc n) (c # p) =
     (if c = CHR ''A'' then
        map_option (\<lambda>m. 1 + dashes d p + m) (match_n d n (drop (dashes d p) p))
      else None)"

definition nargs_match :: "action \<Rightarrow> string \<Rightarrow> nat option" where
  "nargs_match action p =
     (let d = (option_strings action = []); k0 = dashes d p; p0 = drop k0 p in
      case nargs_of action of
        Nargs_None \<Rightarrow> map_option (\<lambda>m. k0 + m) (match_n d 1 p0)
      | Nargs_Int n \<Rightarrow> map_option (\<lambda>m. k0 + m) (match_n d n p0)
      | Nargs_ZeroOrMore \<Rightarrow>
          Some (k0 + length (takeWhile (\<lambda>c. c = CHR ''A'' \<or> (d \<and> c = CHR ''-'')) p0)))"

text \<open>\<^verbatim>\<open>_match_argument\<close>: the count, or the \<^verbatim>\<open>ArgumentError\<close> of the action.\<close>

definition match_argument :: "action \<Rightarrow> string \<Rightarrow> argparse_error + nat" where
  "match_argument action arg_strings_pattern =
     (case nargs_match action arg_strings_pattern of
        Some n \<Rightarrow> Inr n
      | None \<Rightarrow>
          (case nargs_of action of
             Nargs_None \<Rightarrow> Inl (Expected_one_argument action)
           | Nargs_Int n \<Rightarrow> Inl (Expected_n_arguments action n)
           | Nargs_ZeroOrMore \<Rightarrow> Inl (Expected_n_arguments action 0)))"

subsection \<open>The scan of the argument list\<close>

text \<open>
  The first loop of \<^verbatim>\<open>_parse_known_args\<close> gives every argument string a letter of
  \<^verbatim>\<open>arg_strings_pattern\<close>: \<^verbatim>\<open>O\<close> with its option tuple (the entry of
  \<^verbatim>\<open>option_string_indices\<close>), \<^verbatim>\<open>-\<close> for the first \<^verbatim>\<open>--\<close>, \<^verbatim>\<open>A\<close> otherwise and
  for everything after \<^verbatim>\<open>--\<close>.
\<close>

datatype targ = Arg string | Dashes | Opt string option_tuple

fun arg_string :: "targ \<Rightarrow> string" where
  "arg_string (Arg s) = s"
| "arg_string Dashes = ''--''"
| "arg_string (Opt s t) = s"

fun pattern_of :: "targ \<Rightarrow> char" where
  "pattern_of (Arg s) = CHR ''A''"
| "pattern_of Dashes = CHR ''-''"
| "pattern_of (Opt s t) = CHR ''O''"

fun scan_arg_strings :: "string list \<Rightarrow> argparse_error + targ list" where
  "scan_arg_strings [] = Inr []"
| "scan_arg_strings (a # as) =
     (if a = ''--'' then Inr (Dashes # map Arg as)
      else (case parse_optional a of
        Inl e \<Rightarrow> Inl e
      | Inr option_tuple \<Rightarrow>
          (case scan_arg_strings as of
             Inl e \<Rightarrow> Inl e
           | Inr ts \<Rightarrow>
               Inr ((case option_tuple of None \<Rightarrow> Arg a | Some t \<Rightarrow> Opt a t) # ts))))"

subsection \<open>Taking actions\<close>

text \<open>
  The state of \<^verbatim>\<open>_parse_known_args\<close>: the namespace, \<^verbatim>\<open>extras\<close>, the positional
  that is still to be parsed (the parser has one, so the list \<^verbatim>\<open>positionals\<close> has at
  most one element) and \<^verbatim>\<open>seen_actions\<close>.
\<close>

record pstate =
  namespace :: cmdargs
  extras :: "string list"
  positionals :: "action option"
  seen_actions :: "action list"

text \<open>
  \<^verbatim>\<open>take_action\<close> with \<^verbatim>\<open>_get_values\<close> and the action's \<^verbatim>\<open>__call__\<close>.  The
  \<^verbatim>\<open>type\<close> conversion is the identity.  \<^verbatim>\<open>--url\<close> stores its single string
  (\<^verbatim>\<open>nargs=None\<close> matches exactly one), \<^verbatim>\<open>--model\<close> stores the list of its strings,
  \<^verbatim>\<open>store_true\<close> stores \<^verbatim>\<open>True\<close>, and the positional stores its strings without the
  first \<^verbatim>\<open>--\<close> among them.
\<close>

fun store :: "action \<Rightarrow> string list \<Rightarrow> cmdargs \<Rightarrow> cmdargs" where
  "store Act_url argument_strings ns =
     (case argument_strings of [v] \<Rightarrow> ns\<lparr>cmd_url := v\<rparr> | _ \<Rightarrow> ns)"
| "store Act_model argument_strings ns = ns\<lparr>cmd_model := Some argument_strings\<rparr>"
| "store Act_help argument_strings ns = ns\<lparr>cmd_help := Some True\<rparr>"
| "store Act_non_option_arguments argument_strings ns =
     ns\<lparr>cmd_non_option_arguments := Some (remove1 ''--'' argument_strings)\<rparr>"

definition take_action :: "action \<Rightarrow> string list \<Rightarrow> pstate \<Rightarrow> pstate" where
  "take_action action argument_strings st =
     st\<lparr>seen_actions := action # seen_actions st,
        namespace := store action argument_strings (namespace st)\<rparr>"

text \<open>
  \<^verbatim>\<open>consume_optional\<close> for the option tuple at \<^verbatim>\<open>start_index\<close>; \<open>following\<close> is
  \<^verbatim>\<open>arg_strings[start_index + 1:]\<close>.  The result holds how many of the following
  strings the option took, so \<^verbatim>\<open>stop\<close> is \<^verbatim>\<open>start_index + 1\<close> plus that number.
  The branch that splits \<^verbatim>\<open>-xyz\<close> into single-dash flags needs an option string
  whose second character is not \<^verbatim>\<open>-\<close>; every option string of this parser starts
  with \<^verbatim>\<open>--\<close>.
\<close>

definition consume_optional ::
  "pstate \<Rightarrow> string \<Rightarrow> option_tuple \<Rightarrow> targ list \<Rightarrow> argparse_error + (pstate \<times> nat)" where
  "consume_optional st arg tuple following =
     (case tuple of (act, option_string, explicit_arg) \<Rightarrow>
       (case act of
          None \<Rightarrow> Inr (st\<lparr>extras := extras st @ [arg]\<rparr>, 0)
        | Some action \<Rightarrow>
           (case explicit_arg of
              Some ea \<Rightarrow>
                (case match_argument action ''A'' of
                   Inl e \<Rightarrow> Inl e
                 | Inr arg_count \<Rightarrow>
                     if arg_count = 1 then Inr (take_action action [ea] st, 0)
                     else Inl (Ignored_explicit_argument action ea))
            | None \<Rightarrow>
                (case match_argument action (map pattern_of following) of
                   Inl e \<Rightarrow> Inl e
                 | Inr arg_count \<Rightarrow>
                     Inr (take_action action (take arg_count (map arg_string following)) st,
                          arg_count)))))"

text \<open>
  \<^verbatim>\<open>consume_positionals\<close> on \<^verbatim>\<open>arg_strings[start_index:]\<close>: the new state and how far
  the index moved.
\<close>

definition consume_positionals :: "pstate \<Rightarrow> targ list \<Rightarrow> pstate \<times> nat" where
  "consume_positionals st rest =
     (case positionals st of
        None \<Rightarrow> (st, 0)
      | Some action \<Rightarrow>
          (case nargs_match action (map pattern_of rest) of
             None \<Rightarrow> (st, 0)
           | Some arg_count \<Rightarrow>
               (take_action action (take arg_count (map arg_string rest)) st
                  \<lparr>positionals := None\<rparr>, arg_count)))"

subsection \<open>The main loop\<close>

text \<open>
  \<open>split_at_option rest\<close> is \<^verbatim>\<open>arg_strings[start_index:next_option_string_index]\<close>
  and, when an option is left, that option with the strings after it.
\<close>

fun split_at_option :: "targ list \<Rightarrow> targ list \<times> (string \<times> option_tuple \<times> targ list) option" where
  "split_at_option [] = ([], None)"
| "split_at_option (Opt s t # r) = ([], Some (s, t, r))"
| "split_at_option (x # r) = (case split_at_option r of (pre, opt) \<Rightarrow> (x # pre, opt))"

lemma split_at_option_length:
  "split_at_option rest = (pre, Some (s, t, r)) \<Longrightarrow> length r < length rest"
  by (induction rest arbitrary: pre rule: split_at_option.induct) (auto split: prod.splits)

text \<open>
  The \<^verbatim>\<open>while start_index <= max_option_string_index\<close> loop, on the list
  \<^verbatim>\<open>arg_strings[start_index:]\<close>.
\<close>

function parse_loop :: "pstate \<Rightarrow> targ list \<Rightarrow> argparse_error + (pstate \<times> targ list)" where
  "parse_loop st rest =
     (case split_at_option rest of
        (pre, None) \<Rightarrow> Inr (st, rest)
      | (pre, Some (arg, tuple, following)) \<Rightarrow>
          (case (if pre \<noteq> [] then consume_positionals st rest else (st, 0)) of
             (st1, n) \<Rightarrow>
               if n > 0 then parse_loop st1 (drop n rest)
               else
                 (case consume_optional (st1\<lparr>extras := extras st1 @ map arg_string pre\<rparr>)
                         arg tuple following of
                    Inl e \<Rightarrow> Inl e
                  | Inr (st2, arg_count) \<Rightarrow> parse_loop st2 (drop arg_count following))))"
  by pat_completeness auto
termination
proof (relation "measure (\<lambda>(st, rest). length rest)")
  show "wf (measure (\<lambda>(st, rest). length rest))" by simp
next
  fix st :: pstate and rest x1 x2 x2a x2b x3 and x1a :: string and st1 n
  assume "(x1, x2) = split_at_option rest" "x2 = Some x2a" "0 < (n::nat)"
  then have "rest \<noteq> []" by (cases rest) auto
  then show "((st1, drop n rest), (st, rest)) \<in> measure (\<lambda>(st, rest). length rest)"
    using \<open>0 < n\<close> by simp
next
  fix st :: pstate and rest x1 x2 x2a x1a x2b x1b x2c
    and y :: "pstate \<times> nat" and x1d :: pstate and x2e :: nat
  assume "(x1, x2) = split_at_option rest" "x2 = Some x2a" "(x1a, x2b) = x2a" "(x1b, x2c) = x2b"
  then have "split_at_option rest = (x1, Some (x1a, x1b, x2c))" by simp
  from split_at_option_length [OF this]
  show "((x1d, drop x2e x2c), (st, rest)) \<in> measure (\<lambda>(st, rest). length rest)" by simp
qed

text \<open>
  \<^verbatim>\<open>_parse_known_args\<close> and \<^verbatim>\<open>parse_known_args\<close>: the scan, the loop, the positionals
  after the last option, the extras, the check of the required actions.
\<close>

definition parse_known_args :: "string list \<Rightarrow> argparse_error + (cmdargs \<times> string list)" where
  "parse_known_args args =
     (case scan_arg_strings args of
        Inl e \<Rightarrow> Inl e
      | Inr ts \<Rightarrow>
         (case parse_loop \<lparr>namespace = default_namespace, extras = [],
                           positionals = Some Act_non_option_arguments,
                           seen_actions = []\<rparr> ts of
            Inl e \<Rightarrow> Inl e
          | Inr (st, rest) \<Rightarrow>
             (case consume_positionals st rest of
                (st1, stop) \<Rightarrow>
                  (let required_actions =
                         filter (\<lambda>a. a \<notin> set (seen_actions st1) \<and> required a) parser_actions
                   in if required_actions \<noteq> [] then Inl (Arguments_required required_actions)
                      else Inr (namespace st1,
                                extras st1 @ map arg_string (drop stop rest))))))"

section \<open>Decoding the response lines\<close>

text \<open>
  The exceptions that \<open>main\<close> does not catch.  An uncaught exception ends the process
  with a traceback on standard error and exit status 1.
\<close>

datatype exn =
    UnicodeDecodeError
  | JSONDecodeError
  | AttributeError
  | TypeError
  | IndexError
  | RequestException

subsection \<open>\<^verbatim>\<open>bytes.decode('utf-8')\<close>\<close>

text \<open>
  A line of the response body is a byte string; \<open>utf8_decode\<close> works on the values
  of its bytes.  The codec is strict: no overlong form, no surrogate, nothing above
  U+10FFFF, no truncated sequence.
\<close>

definition cont :: "nat \<Rightarrow> bool" where
  "cont b = (0x80 \<le> b \<and> b \<le> 0xBF)"

fun utf8_decode :: "nat list \<Rightarrow> pystr option" where
  "utf8_decode [] = Some []"
| "utf8_decode (b # bs) =
     (if b < 0x80 then map_option (\<lambda>r. b # r) (utf8_decode bs)
      else if 0xC2 \<le> b \<and> b \<le> 0xDF then
        (case bs of
           c1 # r \<Rightarrow>
             if cont c1
             then map_option (\<lambda>t. ((b - 0xC0) * 64 + (c1 - 0x80)) # t) (utf8_decode r)
             else None
         | _ \<Rightarrow> None)
      else if 0xE0 \<le> b \<and> b \<le> 0xEF then
        (case bs of
           c1 # c2 # r \<Rightarrow>
             if (if b = 0xE0 then 0xA0 \<le> c1 \<and> c1 \<le> 0xBF
                 else if b = 0xED then 0x80 \<le> c1 \<and> c1 \<le> 0x9F
                 else cont c1) \<and> cont c2
             then map_option
                    (\<lambda>t. ((b - 0xE0) * 4096 + (c1 - 0x80) * 64 + (c2 - 0x80)) # t)
                    (utf8_decode r)
             else None
         | _ \<Rightarrow> None)
      else if 0xF0 \<le> b \<and> b \<le> 0xF4 then
        (case bs of
           c1 # c2 # c3 # r \<Rightarrow>
             if (if b = 0xF0 then 0x90 \<le> c1 \<and> c1 \<le> 0xBF
                 else if b = 0xF4 then 0x80 \<le> c1 \<and> c1 \<le> 0x8F
                 else cont c1) \<and> cont c2 \<and> cont c3
             then map_option
                    (\<lambda>t. ((b - 0xF0) * 262144 + (c1 - 0x80) * 4096 + (c2 - 0x80) * 64
                           + (c3 - 0x80)) # t)
                    (utf8_decode r)
             else None
         | _ \<Rightarrow> None)
      else None)"

definition decode_utf8 :: "string \<Rightarrow> exn + pystr" where
  "decode_utf8 line =
     (case utf8_decode (map of_char line) of
        None \<Rightarrow> Inl UnicodeDecodeError
      | Some s \<Rightarrow> Inr s)"

subsection \<open>\<^verbatim>\<open>json.loads\<close>\<close>

text \<open>
  The values that \<^verbatim>\<open>json.loads\<close> returns.  A number with a fraction or an exponent
  becomes a Python float: the model keeps its text.  An object becomes a
  \<^verbatim>\<open>dict\<close>: the model keeps the members in the order of the text, and \<open>dict_get\<close>
  reads the last member with the key, as the \<^verbatim>\<open>dict\<close> built from the pairs does.
  The limits of the interpreter (recursion depth, digits of an integer) are not part of
  the model.
\<close>

datatype float_lit = Float_lit pystr | Float_nan | Float_inf | Float_neg_inf

datatype json =
    JNull
  | JBool bool
  | JInt int
  | JFloat float_lit
  | JStr pystr
  | JArr "json list"
  | JObj "(pystr \<times> json) list"

definition dict_get :: "(pystr \<times> json) list \<Rightarrow> pystr \<Rightarrow> json \<Rightarrow> json" where
  "dict_get d k dflt = (case map_of (rev d) k of None \<Rightarrow> dflt | Some v \<Rightarrow> v)"

text \<open>Strings: \<^verbatim>\<open>scanstring\<close> in strict mode, from the character after the quote.\<close>

definition hex_val :: "nat \<Rightarrow> nat option" where
  "hex_val c =
     (if 48 \<le> c \<and> c \<le> 57 then Some (c - 48)
      else if 97 \<le> c \<and> c \<le> 102 then Some (c - 87)
      else if 65 \<le> c \<and> c \<le> 70 then Some (c - 55)
      else None)"

definition decode_hex4 :: "nat \<Rightarrow> nat \<Rightarrow> nat \<Rightarrow> nat \<Rightarrow> nat option" where
  "decode_hex4 a b c d =
     (case (hex_val a, hex_val b, hex_val c, hex_val d) of
        (Some x, Some y, Some z, Some w) \<Rightarrow> Some (((x * 16 + y) * 16 + z) * 16 + w)
      | _ \<Rightarrow> None)"

definition backslash :: "nat \<Rightarrow> nat option" where
  "backslash esc =
     (if esc = 34 then Some 34
      else if esc = 92 then Some 92
      else if esc = 47 then Some 47
      else if esc = 98 then Some 8
      else if esc = 102 then Some 12
      else if esc = 110 then Some 10
      else if esc = 114 then Some 13
      else if esc = 116 then Some 9
      else None)"

definition append_char :: "nat \<Rightarrow> (pystr \<times> pystr) option \<Rightarrow> (pystr \<times> pystr) option" where
  "append_char c r = map_option (\<lambda>(str, rest). (c # str, rest)) r"

text \<open>One escape sequence, from the character after the backslash.\<close>

definition scan_escape :: "pystr \<Rightarrow> (nat \<times> pystr) option" where
  "scan_escape s =
     (case s of
        [] \<Rightarrow> None
      | esc # s1 \<Rightarrow>
          if esc = 117 then
            (case s1 of
               h1 # h2 # h3 # h4 # s2 \<Rightarrow>
                 (case decode_hex4 h1 h2 h3 h4 of
                    None \<Rightarrow> None
                  | Some uni \<Rightarrow>
                      if 0xD800 \<le> uni \<and> uni \<le> 0xDBFF then
                        (case s2 of
                           bs # u # e # f # g # h # s3 \<Rightarrow>
                             if bs = 92 \<and> u = 117 then
                               (case decode_hex4 e f g h of
                                  None \<Rightarrow> None
                                | Some uni2 \<Rightarrow>
                                    if 0xDC00 \<le> uni2 \<and> uni2 \<le> 0xDFFF then
                                      Some (0x10000 + ((uni - 0xD800) * 1024 + (uni2 - 0xDC00)),
                                            s3)
                                    else Some (uni, s2))
                             else Some (uni, s2)
                         | _ \<Rightarrow> Some (uni, s2))
                      else Some (uni, s2))
             | _ \<Rightarrow> None)
          else map_option (\<lambda>ch. (ch, s1)) (backslash esc))"

lemma scan_escape_length: "scan_escape s = Some (c, r) \<Longrightarrow> length r < length s"
  unfolding scan_escape_def
  by (simp split: list.splits if_splits option.splits) auto

function scanstring :: "pystr \<Rightarrow> (pystr \<times> pystr) option" where
  "scanstring [] = None"
| "scanstring (c # s) =
     (if c = 34 then Some ([], s)
      else if c = 92 then
        (case scan_escape s of
           None \<Rightarrow> None
         | Some (ch, r) \<Rightarrow> append_char ch (scanstring r))
      else if c \<le> 0x1F then None
      else append_char c (scanstring s))"
  by pat_completeness auto
termination
  by (relation "measure length") (auto dest: scan_escape_length)

text \<open>
  Numbers: \<^verbatim>\<open>(-?(?:0|[1-9][0-9]*))(\.[0-9]+)?([eE][-+]?[0-9]+)?\<close>.  The result is the
  value and the text after the number.
\<close>

definition json_digit :: "nat \<Rightarrow> bool" where
  "json_digit c = (48 \<le> c \<and> c \<le> 57)"

definition digits_value :: "pystr \<Rightarrow> nat" where
  "digits_value ds = foldl (\<lambda>acc c. acc * 10 + (c - 48)) 0 ds"

definition scan_integer :: "pystr \<Rightarrow> (pystr \<times> pystr) option" where
  "scan_integer s =
     (case s of
        [] \<Rightarrow> None
      | d # r \<Rightarrow>
          if d = 48 then Some ([d], r)
          else if 49 \<le> d \<and> d \<le> 57 then Some (d # takeWhile json_digit r, dropWhile json_digit r)
          else None)"

definition scan_frac :: "pystr \<Rightarrow> pystr \<times> pystr" where
  "scan_frac s =
     (case s of
        dot # r \<Rightarrow>
          if dot = 46 \<and> takeWhile json_digit r \<noteq> []
          then (dot # takeWhile json_digit r, dropWhile json_digit r)
          else ([], s)
      | [] \<Rightarrow> ([], s))"

definition scan_exp :: "pystr \<Rightarrow> pystr \<times> pystr" where
  "scan_exp s =
     (case s of
        e # r \<Rightarrow>
          if e = 101 \<or> e = 69 then
            (case (case r of
                     sg # r1 \<Rightarrow> if sg = 43 \<or> sg = 45 then ([sg], r1) else ([], r)
                   | [] \<Rightarrow> ([], r)) of
               (sign, r2) \<Rightarrow>
                 if takeWhile json_digit r2 \<noteq> []
                 then (e # sign @ takeWhile json_digit r2, dropWhile json_digit r2)
                 else ([], s))
          else ([], s)
      | [] \<Rightarrow> ([], s))"

definition match_number :: "pystr \<Rightarrow> (json \<times> pystr) option" where
  "match_number s =
     (case (case s of c # r \<Rightarrow> if c = 45 then (True, r) else (False, s) | [] \<Rightarrow> (False, s)) of
        (neg, s0) \<Rightarrow>
          (case scan_integer s0 of
             None \<Rightarrow> None
           | Some (integer, s1) \<Rightarrow>
               (case scan_frac s1 of
                  (frac, s2) \<Rightarrow>
                    (case scan_exp s2 of
                       (expo, s3) \<Rightarrow>
                         if frac = [] \<and> expo = [] then
                           Some (JInt (if neg then - int (digits_value integer)
                                       else int (digits_value integer)), s3)
                         else
                           Some (JFloat (Float_lit ((if neg then [45] else []) @ integer
                                                    @ frac @ expo)), s3)))))"

text \<open>
  The tokens of a JSON text.  The scanner of \<^verbatim>\<open>json\<close> tries, in this order, a string,
  \<^verbatim>\<open>{\<close>, \<^verbatim>\<open>[\<close>, \<^verbatim>\<open>null\<close>, \<^verbatim>\<open>true\<close>, \<^verbatim>\<open>false\<close>, a number, \<^verbatim>\<open>NaN\<close>,
  \<^verbatim>\<open>Infinity\<close>, \<^verbatim>\<open>-Infinity\<close>; white space is space, tab, line feed and carriage
  return.
\<close>

datatype token =
    T_lbrace | T_rbrace | T_lbracket | T_rbracket | T_colon | T_comma | T_value json

definition whitespace :: "nat \<Rightarrow> bool" where
  "whitespace c = (c = 32 \<or> c = 9 \<or> c = 10 \<or> c = 13)"

text \<open>One token that is not a punctuation mark, with the text after it.\<close>

definition scan_value :: "pystr \<Rightarrow> (json \<times> pystr) option" where
  "scan_value s =
     (case s of
        [] \<Rightarrow> None
      | c # r \<Rightarrow>
          if c = 34 then map_option (\<lambda>(str, rest). (JStr str, rest)) (scanstring r)
          else if startswith s (cps ''null'') then Some (JNull, drop 4 s)
          else if startswith s (cps ''true'') then Some (JBool True, drop 4 s)
          else if startswith s (cps ''false'') then Some (JBool False, drop 5 s)
          else (case match_number s of
             Some m \<Rightarrow> Some m
           | None \<Rightarrow>
               if startswith s (cps ''NaN'') then Some (JFloat Float_nan, drop 3 s)
               else if startswith s (cps ''Infinity'') then Some (JFloat Float_inf, drop 8 s)
               else if startswith s (cps ''-Infinity'') then Some (JFloat Float_neg_inf, drop 9 s)
               else None))"

definition punctuation :: "nat \<Rightarrow> token option" where
  "punctuation c =
     (if c = 123 then Some T_lbrace
      else if c = 125 then Some T_rbrace
      else if c = 91 then Some T_lbracket
      else if c = 93 then Some T_rbracket
      else if c = 58 then Some T_colon
      else if c = 44 then Some T_comma
      else None)"

lemma scanstring_length: "scanstring s = Some (str, rest) \<Longrightarrow> length rest < length s"
proof (induction s arbitrary: str rest rule: scanstring.induct)
  case 1
  then show ?case by simp
next
  case (2 c s)
  show ?case
    using "2.prems" "2.IH"
    by (fastforce simp: append_char_def dest: scan_escape_length
        split: if_splits option.splits prod.splits)
qed

lemma match_number_length: "match_number s = Some (v, rest) \<Longrightarrow> length rest < length s"
proof -
  have le: "length (dropWhile P xs) \<le> length xs" for P and xs :: pystr
    by (simp add: length_dropWhile_le)
  have i: "scan_integer t = Some (a, r) \<Longrightarrow> length r < length t" for t a r
    using le [of json_digit] 
    by (auto simp: scan_integer_def less_Suc_eq_le split: list.splits if_splits)
  have f: "length (snd (scan_frac t)) \<le> length t" for t
    using le [of json_digit]
    by (auto simp: scan_frac_def le_SucI split: list.splits if_splits)
  have e: "length (snd (scan_exp t)) \<le> length t" for t
    using le [of json_digit]
    by (auto simp: scan_exp_def le_SucI split: list.splits if_splits prod.splits)
  assume m: "match_number s = Some (v, rest)"
  then have "\<exists>s0 a s1. length s0 \<le> length s \<and> scan_integer s0 = Some (a, s1)
      \<and> rest = snd (scan_exp (snd (scan_frac s1)))"
    unfolding match_number_def
    by (cases s) (simp_all split: if_splits option.splits prod.splits, (force+))
  then obtain s0 a s1 where s0: "length s0 \<le> length s"
    and si: "scan_integer s0 = Some (a, s1)"
    and r: "rest = snd (scan_exp (snd (scan_frac s1)))"
    by blast
  have "length rest \<le> length s1" unfolding r using e f le_trans by blast
  with i [OF si] s0 show ?thesis by simp
qed

lemma scan_value_length: "scan_value s = Some (v, rest) \<Longrightarrow> length rest < length s"
  by (cases s)
     (auto simp: scan_value_def startswith_def cps_def
       dest!: scanstring_length match_number_length split: if_splits option.splits)

function tokens :: "pystr \<Rightarrow> token list option" where
  "tokens [] = Some []"
| "tokens (c # s) =
     (if whitespace c then tokens s
      else (case punctuation c of
         Some t \<Rightarrow> map_option (\<lambda>ts. t # ts) (tokens s)
       | None \<Rightarrow>
           (case scan_value (c # s) of
              None \<Rightarrow> None
            | Some (v, rest) \<Rightarrow> map_option (\<lambda>ts. T_value v # ts) (tokens rest))))"
  by pat_completeness auto
termination
  by (relation "measure length") (auto dest: scan_value_length)

text \<open>
  The grammar: an object is \<^verbatim>\<open>{}\<close> or members \<^verbatim>\<open>"key": value\<close> between commas,
  an array is \<^verbatim>\<open>[]\<close> or values between commas, and nothing follows the value of
  the text.  The parser keeps the open containers on a stack and takes one token at a
  step.
\<close>

datatype frame =
    F_array "json list"
  | F_object "(pystr \<times> json) list"
  | F_member "(pystr \<times> json) list" pystr

datatype pmode =
    P_value | P_first | P_key_first | P_key | P_colon pystr | P_after | P_end json

definition complete :: "json \<Rightarrow> frame list \<Rightarrow> (pmode \<times> frame list) option" where
  "complete v stack =
     (case stack of
        [] \<Rightarrow> Some (P_end v, [])
      | F_array acc # st \<Rightarrow> Some (P_after, F_array (acc @ [v]) # st)
      | F_member kvs k # st \<Rightarrow> Some (P_after, F_object (kvs @ [(k, v)]) # st)
      | F_object kvs # st \<Rightarrow> None)"

definition begin_value :: "token \<Rightarrow> frame list \<Rightarrow> (pmode \<times> frame list) option" where
  "begin_value t stack =
     (case t of
        T_value v \<Rightarrow> complete v stack
      | T_lbracket \<Rightarrow> Some (P_first, F_array [] # stack)
      | T_lbrace \<Rightarrow> Some (P_key_first, F_object [] # stack)
      | _ \<Rightarrow> None)"

definition close_array :: "frame list \<Rightarrow> (pmode \<times> frame list) option" where
  "close_array stack =
     (case stack of F_array acc # st \<Rightarrow> complete (JArr acc) st | _ \<Rightarrow> None)"

definition close_object :: "frame list \<Rightarrow> (pmode \<times> frame list) option" where
  "close_object stack =
     (case stack of F_object kvs # st \<Rightarrow> complete (JObj kvs) st | _ \<Rightarrow> None)"

definition key_token :: "token \<Rightarrow> frame list \<Rightarrow> (pmode \<times> frame list) option" where
  "key_token t stack = (case t of T_value (JStr k) \<Rightarrow> Some (P_colon k, stack) | _ \<Rightarrow> None)"

fun step :: "pmode \<Rightarrow> frame list \<Rightarrow> token \<Rightarrow> (pmode \<times> frame list) option" where
  "step P_value stack t = begin_value t stack"
| "step P_first stack t = (if t = T_rbracket then close_array stack else begin_value t stack)"
| "step P_key_first stack t = (if t = T_rbrace then close_object stack else key_token t stack)"
| "step P_key stack t = key_token t stack"
| "step (P_colon k) stack t =
     (case (t, stack) of
        (T_colon, F_object kvs # st) \<Rightarrow> Some (P_value, F_member kvs k # st)
      | _ \<Rightarrow> None)"
| "step P_after stack t =
     (case (t, stack) of
        (T_comma, F_array acc # st) \<Rightarrow> Some (P_value, stack)
      | (T_comma, F_object kvs # st) \<Rightarrow> Some (P_key, stack)
      | (T_rbracket, _) \<Rightarrow> close_array stack
      | (T_rbrace, _) \<Rightarrow> close_object stack
      | _ \<Rightarrow> None)"
| "step (P_end v) stack t = None"

fun run_tokens :: "pmode \<Rightarrow> frame list \<Rightarrow> token list \<Rightarrow> json option" where
  "run_tokens m stack [] = (case m of P_end v \<Rightarrow> Some v | _ \<Rightarrow> None)"
| "run_tokens m stack (t # ts) =
     (case step m stack t of
        None \<Rightarrow> None
      | Some (m', stack') \<Rightarrow> run_tokens m' stack' ts)"

definition json_loads :: "pystr \<Rightarrow> exn + json" where
  "json_loads s =
     (case tokens s of
        None \<Rightarrow> Inl JSONDecodeError
      | Some ts \<Rightarrow>
          (case run_tokens P_value [] ts of
             None \<Rightarrow> Inl JSONDecodeError
           | Some v \<Rightarrow> Inr v))"

section \<open>\<^verbatim>\<open>json.dumps\<close> of the request payload\<close>

text \<open>
  \<^verbatim>\<open>encode_basestring_ascii\<close>: the characters from space to \<^verbatim>\<open>~\<close> stand for
  themselves, except the quote and the backslash; the others are written as
  \<^verbatim>\<open>\b \f \n \r \t\<close> or as \<^verbatim>\<open>\uXXXX\<close>, with a surrogate pair above U+FFFF.
\<close>

definition hex_digit :: "nat \<Rightarrow> nat" where
  "hex_digit d = (if d < 10 then 48 + d else 87 + d)"

definition hex4 :: "nat \<Rightarrow> pystr" where
  "hex4 n =
     [92, 117, hex_digit (n div 4096 mod 16), hex_digit (n div 256 mod 16),
      hex_digit (n div 16 mod 16), hex_digit (n mod 16)]"

definition escape_char :: "nat \<Rightarrow> pystr" where
  "escape_char c =
     (if c = 92 then [92, 92]
      else if c = 34 then [92, 34]
      else if 32 \<le> c \<and> c \<le> 126 then [c]
      else if c = 8 then [92, 98]
      else if c = 12 then [92, 102]
      else if c = 10 then [92, 110]
      else if c = 13 then [92, 114]
      else if c = 9 then [92, 116]
      else if c < 0x10000 then hex4 c
      else hex4 (0xD800 + ((c - 0x10000) div 1024) mod 1024)
           @ hex4 (0xDC00 + (c - 0x10000) mod 1024))"

definition encode_basestring_ascii :: "pystr \<Rightarrow> pystr" where
  "encode_basestring_ascii s = [34] @ concat (map escape_char s) @ [34]"

text \<open>
  \<^verbatim>\<open>json.dumps\<close> of a \<^verbatim>\<open>dict\<close> whose keys and values are strings, with the default
  separators \<^verbatim>\<open>', '\<close> and \<^verbatim>\<open>': '\<close>.
\<close>

fun join_items :: "pystr list \<Rightarrow> pystr" where
  "join_items [] = []"
| "join_items [x] = x"
| "join_items (x # xs) = x @ [44, 32] @ join_items xs"

definition json_dumps :: "(pystr \<times> pystr) list \<Rightarrow> pystr" where
  "json_dumps d =
     [123]
     @ join_items (map (\<lambda>(k, v). encode_basestring_ascii k @ [58, 32]
                               @ encode_basestring_ascii v) d)
     @ [125]"

section \<open>What the program writes\<close>

definition newline :: string where
  "newline = [CHR 0x0A]"

definition apostrophe :: string where
  "apostrophe = [CHR 0x27]"

text \<open>Python's \<^verbatim>\<open>str\<close> of an integer.\<close>

fun str_nat :: "nat \<Rightarrow> string" where
  "str_nat n =
     (if n < 10 then [char_of (48 + n)]
      else str_nat (n div 10) @ [char_of (48 + n mod 10)])"

definition str_int :: "int \<Rightarrow> string" where
  "str_int i = (if i < 0 then CHR ''-'' # str_nat (nat (- i)) else str_nat (nat i))"

text \<open>
  Python's \<^verbatim>\<open>repr\<close> of a string of code points below 256: the quote is \<^verbatim>\<open>"\<close> when
  the string has \<^verbatim>\<open>'\<close> and no \<^verbatim>\<open>"\<close>; the quote and the backslash are escaped;
  tab, line feed and carriage return have their letters; the other characters that are
  not printable (below 0x20, 0x7F to 0xA0, 0xAD) are written \<^verbatim>\<open>\xNN\<close>.
\<close>

definition repr_char :: "char \<Rightarrow> char \<Rightarrow> string" where
  "repr_char quote c =
     (let n = (of_char c :: nat) in
      if c = quote \<or> n = 92 then [CHR 0x5C, c]
      else if n = 9 then [CHR 0x5C, CHR ''t'']
      else if n = 10 then [CHR 0x5C, CHR ''n'']
      else if n = 13 then [CHR 0x5C, CHR ''r'']
      else if n < 32 \<or> (127 \<le> n \<and> n \<le> 160) \<or> n = 173 then
        [CHR 0x5C, CHR ''x'', char_of (hex_digit (n div 16)), char_of (hex_digit (n mod 16))]
      else [c])"

definition py_repr :: "string \<Rightarrow> string" where
  "py_repr s =
     (let quote = (if CHR 0x27 \<in> set s \<and> CHR 0x22 \<notin> set s then CHR 0x22 else CHR 0x27)
      in [quote] @ concat (map (repr_char quote) s) @ [quote])"

fun join_with :: "string \<Rightarrow> string list \<Rightarrow> string" where
  "join_with sep [] = []"
| "join_with sep [x] = x"
| "join_with sep (x # xs) = x @ sep @ join_with sep xs"

text \<open>\<^verbatim>\<open>_get_action_name\<close>: the option strings, or the \<^verbatim>\<open>dest\<close> of the positional.\<close>

definition action_name :: "action \<Rightarrow> string" where
  "action_name a =
     (if option_strings a \<noteq> [] then join_with ''/'' (option_strings a)
      else ''non_option_arguments'')"

fun argparse_message :: "argparse_error \<Rightarrow> string" where
  "argparse_message (Ambiguous_option option matches) =
     ''ambiguous option: '' @ option @ '' could match '' @ join_with '', '' matches"
| "argparse_message (Expected_one_argument a) =
     ''argument '' @ action_name a @ '': expected one argument''"
| "argparse_message (Expected_n_arguments a n) =
     ''argument '' @ action_name a @ '': expected '' @ str_nat n
       @ (if n = 1 then '' argument'' else '' arguments'')"
| "argparse_message (Ignored_explicit_argument a explicit_arg) =
     ''argument '' @ action_name a @ '': ignored explicit argument '' @ py_repr explicit_arg"
| "argparse_message (Arguments_required as) =
     ''the following arguments are required: '' @ join_with '', '' (map action_name as)"

text \<open>The text that \<open>main\<close> prints for \<^verbatim>\<open>--help\<close>; \<^verbatim>\<open>print\<close> adds a line feed.\<close>

definition usage_text :: string where
  "usage_text =
     newline @ ''Usage: spit [OPTION...]'' @ newline
     @ newline
     @ ''Passes standard input to an ollama instance and prints the response.'' @ newline
     @ newline
     @ ''Options:'' @ newline
     @ ''      --url      Specifies the ollama server'' @ apostrophe @ ''s URL.'' @ newline
     @ ''      --model    Specifies the model to use.'' @ newline
     @ newline
     @ ''Informative output:'' @ newline
     @ newline
     @ ''      --help     Show this help text.'' @ newline"

definition try_help :: string where
  "try_help = ''Try '' @ apostrophe @ ''spit --help'' @ apostrophe
              @ '' for more information.'' @ newline"

definition unrecognized_option :: "string \<Rightarrow> string" where
  "unrecognized_option arg =
     ''spit: Unrecognized option '' @ apostrophe @ arg @ apostrophe @ ''.'' @ newline
     @ try_help"

definition missing_model :: string where
  "missing_model = ''spit: missing --model option'' @ newline"

definition too_many_arguments :: string where
  "too_many_arguments = ''spit: too many arguments'' @ newline @ try_help"

section \<open>The run of the program\<close>

text \<open>
  What the program finds around it: the arguments \<^verbatim>\<open>sys.argv[1:]\<close>, the text that
  \<^verbatim>\<open>sys.stdin.read()\<close> returns, and what \<^verbatim>\<open>requests.post\<close> does with a URL and a
  body: it raises, or it returns a response with a status code, the text of the body
  (\<^verbatim>\<open>response.text\<close>), the lines that \<^verbatim>\<open>iter_lines()\<close> yields and the exception,
  if any, that ends the iteration.
\<close>

record response =
  status_code :: int
  resp_text :: pystr
  resp_lines :: "string list"
  resp_failure :: "exn option"

record env =
  argv :: "string list"
  stdin :: pystr
  post :: "string \<Rightarrow> pystr \<Rightarrow> exn + response"

text \<open>
  What the program does, in order: writes on standard output and standard error, the
  flush of standard output, the read of standard input, the POST with its URL, its body
  and the \<^verbatim>\<open>stream\<close> flag, the read of \<^verbatim>\<open>response.text\<close>, and each line taken from
  \<^verbatim>\<open>iter_lines()\<close>.  \<open>Stdout_str v\<close> is the write of \<^verbatim>\<open>str(v)\<close> for a value that
  is not a string.
\<close>

datatype event =
    Stdout pystr
  | Stdout_str json
  | Flush_stdout
  | Stderr pystr
  | Read_stdin
  | Post string pystr bool
  | Read_text
  | Next_line string

datatype outcome = Exit nat | Uncaught exn

text \<open>\<^verbatim>\<open>print(part.get('response', ''), end='', flush=True)\<close>\<close>

definition print_response :: "(pystr \<times> json) list \<Rightarrow> event list" where
  "print_response part =
     [case dict_get part (cps ''response'') (JStr []) of
        JStr s \<Rightarrow> Stdout s
      | v \<Rightarrow> Stdout_str v,
      Flush_stdout]"

text \<open>The loop \<^verbatim>\<open>for line in response.iter_lines()\<close> and the end of \<open>main\<close>.\<close>

fun consume_lines :: "string list \<Rightarrow> exn option \<Rightarrow> event list \<times> outcome" where
  "consume_lines [] failure =
     ([], case failure of None \<Rightarrow> Exit 0 | Some e \<Rightarrow> Uncaught e)"
| "consume_lines (line # rest) failure =
     (case decode_utf8 line of
        Inl e \<Rightarrow> ([Next_line line], Uncaught e)
      | Inr s \<Rightarrow>
          (case json_loads s of
             Inl e \<Rightarrow> ([Next_line line], Uncaught e)
           | Inr (JObj part) \<Rightarrow>
               (case consume_lines rest failure of
                  (evs, t) \<Rightarrow> (Next_line line # print_response part @ evs, t))
           | Inr _ \<Rightarrow> ([Next_line line], Uncaught AttributeError)))"

definition sanitize_url :: "string \<Rightarrow> string" where
  "sanitize_url url = (if \<not> endswith url ''/'' then url @ ''/'' else url)"

text \<open>
  \<^verbatim>\<open>payload = json.dumps({ 'model': model, 'prompt': input })\<close>
\<close>

definition payload :: "string \<Rightarrow> pystr \<Rightarrow> pystr" where
  "payload model input = json_dumps [(cps ''model'', cps model), (cps ''prompt'', input)]"

text \<open>From \<^verbatim>\<open>input = sys.stdin.read()\<close> to the end of \<open>main\<close>.\<close>

definition request :: "env \<Rightarrow> string \<Rightarrow> string \<Rightarrow> event list \<times> outcome" where
  "request e url model =
     (let input = stdin e;
          sent = [Read_stdin, Post (url @ ''api/generate'') (payload model input) True]
      in case post e (url @ ''api/generate'') (payload model input) of
           Inl ex \<Rightarrow> (sent, Uncaught ex)
         | Inr response \<Rightarrow>
             (let status =
                    (if status_code response \<noteq> 200
                     then [Stderr (cps (''Status: '' @ str_int (status_code response) @ newline))]
                     else [])
              in if status_code response \<ge> 400 then
                   (sent @ status
                      @ [Read_text, Stderr (cps ''Body: '' @ resp_text response @ cps newline)],
                    Exit 1)
                 else
                   (case consume_lines (resp_lines response) (resp_failure response) of
                      (evs, t) \<Rightarrow> (sent @ status @ evs, t))))"

text \<open>The first of the strings that begins with \<^verbatim>\<open>-\<close>, as the loop over \<^verbatim>\<open>unhandled\<close> finds it.\<close>

definition first_dash :: "string list \<Rightarrow> string option" where
  "first_dash xs = find (\<lambda>arg. startswith arg ''-'') xs"

text \<open>
  The first part of \<open>main\<close>, up to the check of the number of arguments: it ends the
  program (\<open>Inl\<close>, with what was written and the exit status) or leaves the
  namespace.
\<close>

definition resolve_arguments :: "string list \<Rightarrow> (event list \<times> outcome) + cmdargs" where
  "resolve_arguments args =
     (case parse_known_args args of
        Inl err \<Rightarrow>
          Inl ([Stderr (cps (''usage: spit --help'' @ newline)),
                Stderr (cps (''spit: error: '' @ argparse_message err @ newline))],
               Exit 2)
      | Inr (cmdargs, unhandled) \<Rightarrow>
          if cmd_help cmdargs \<noteq> None then Inl ([Stdout (cps (usage_text @ newline))], Exit 0)
          else
            (case first_dash unhandled of
               Some arg \<Rightarrow> Inl ([Stderr (cps (unrecognized_option arg))], Exit 1)
             | None \<Rightarrow>
                 (case cmd_non_option_arguments cmdargs of
                    None \<Rightarrow> Inl ([], Uncaught TypeError)
                  | Some collected \<Rightarrow>
                      (let non_option_arguments = collected @ unhandled in
                       if cmd_model cmdargs = None then
                         Inl ([Stderr (cps missing_model)], Exit 1)
                       else if length non_option_arguments > 0 then
                         Inl ([Stderr (cps too_many_arguments)], Exit 1)
                       else
                         Inr (cmdargs\<lparr>cmd_non_option_arguments :=
                                       Some non_option_arguments\<rparr>)))))"

definition main :: "env \<Rightarrow> event list \<times> outcome" where
  "main e =
     (case resolve_arguments (argv e) of
        Inl ended \<Rightarrow> ended
      | Inr cmdargs \<Rightarrow>
          (let url = sanitize_url (cmd_url cmdargs) in
           case cmd_model cmdargs of
             None \<Rightarrow> ([], Uncaught TypeError)
           | Some [] \<Rightarrow> ([], Uncaught IndexError)
           | Some (model # _) \<Rightarrow> request e url model))"

text \<open>Two servers for the examples: one that cannot be reached, one that answers.\<close>

definition unreachable :: "string \<Rightarrow> pystr \<Rightarrow> exn + response" where
  "unreachable url body = Inl RequestException"

definition answering :: "response \<Rightarrow> string \<Rightarrow> pystr \<Rightarrow> exn + response" where
  "answering r url body = Inr r"

section \<open>Notions for the statements about the argument list\<close>

text \<open>
  The option that an argument string stands for, when \<^verbatim>\<open>_parse_optional\<close> finds one
  of the declared options for it (by its name, by an abbreviation, with or without
  \<^verbatim>\<open>=value\<close>).
\<close>

definition option_action :: "string \<Rightarrow> action option" where
  "option_action s =
     (case parse_optional s of
        Inr (Some (Some a, os, ea)) \<Rightarrow> Some a
      | _ \<Rightarrow> None)"

text \<open>A string that \<^verbatim>\<open>_parse_optional\<close> takes for an option that the parser has not.\<close>

definition unknown_option :: "string \<Rightarrow> bool" where
  "unknown_option s = (parse_optional s = Inr (Some (None, s, None)))"

text \<open>The argument strings before the first \<^verbatim>\<open>--\<close>: only they can be options.\<close>

definition option_part :: "string list \<Rightarrow> string list" where
  "option_part args = takeWhile (\<lambda>a. a \<noteq> ''--'') args"

text \<open>A string that begins with \<^verbatim>\<open>-\<close> and stands for none of the declared options.\<close>

definition unrecognized_token :: "string \<Rightarrow> bool" where
  "unrecognized_token s = (startswith s ''-'' \<and> option_action s = None)"

text \<open>The spellings of the help option.\<close>

definition help_spelling :: "string \<Rightarrow> bool" where
  "help_spelling s = (s \<in> set (option_strings Act_help))"

fun is_option :: "targ \<Rightarrow> bool" where
  "is_option (Opt s t) = True"
| "is_option _ = False"

text \<open>
  What one turn of the loop does with the strings \<open>pre\<close> before the next option: the
  positional takes them if it is still to be parsed, otherwise they are extras.
\<close>

definition absorb :: "pstate \<Rightarrow> targ list \<Rightarrow> pstate" where
  "absorb st pre =
     (if pre = [] then st
      else (case positionals st of
        Some a \<Rightarrow> (take_action a (map arg_string pre) st)\<lparr>positionals := None\<rparr>
      | None \<Rightarrow> st\<lparr>extras := extras st @ map arg_string pre\<rparr>))"

text \<open>The lists that the scan of the argument list yields.\<close>

fun scanned_token :: "targ \<Rightarrow> bool" where
  "scanned_token (Arg s) = (parse_optional s = Inr None \<and> s \<noteq> ''--'')"
| "scanned_token (Opt s t) = (parse_optional s = Inr (Some t) \<and> s \<noteq> ''--'')"
| "scanned_token Dashes = False"

fun well_scanned :: "targ list \<Rightarrow> bool" where
  "well_scanned [] = True"
| "well_scanned (Dashes # r) = (\<forall>x \<in> set r. \<not> is_option x \<and> x \<noteq> Dashes)"
| "well_scanned (x # r) = (scanned_token x \<and> well_scanned r)"

text \<open>The positional that is still to be parsed is the one that the parser declares.\<close>

definition pos_ok :: "pstate \<Rightarrow> bool" where
  "pos_ok st = (positionals st = None \<or> positionals st = Some Act_non_option_arguments)"

text \<open>An option of the scanned list stands for the action \<open>a\<close>.\<close>

definition has_option :: "action \<Rightarrow> targ list \<Rightarrow> bool" where
  "has_option a ts =
     (\<exists>x \<in> set ts. case x of Opt s (Some b, os, ea) \<Rightarrow> b = a | _ \<Rightarrow> False)"





fun is_post :: "event \<Rightarrow> bool" where
  "is_post (Post url body stream) = True"
| "is_post _ = False"


text \<open>
  Text whose code points are below 0x110000 and in which no high surrogate is followed
  by a low surrogate.  Python's text that comes from decoding bytes is such: the strict
  codecs yield no surrogate, and \<^verbatim>\<open>surrogateescape\<close> yields low surrogates only.
\<close>

definition high_surrogate :: "nat \<Rightarrow> bool" where
  "high_surrogate c = (0xD800 \<le> c \<and> c \<le> 0xDBFF)"

definition low_surrogate :: "nat \<Rightarrow> bool" where
  "low_surrogate c = (0xDC00 \<le> c \<and> c \<le> 0xDFFF)"

fun well_formed_text :: "pystr \<Rightarrow> bool" where
  "well_formed_text [] = True"
| "well_formed_text (c # s) =
     (c < 0x110000
      \<and> \<not> (high_surrogate c \<and> (case s of [] \<Rightarrow> False | d # _ \<Rightarrow> low_surrogate d))
      \<and> well_formed_text s)"

text \<open>
  The text after an escape of a high surrogate does not go on with the escape of a low
  surrogate (\<open>scan_escape\<close> would join the two).
\<close>

definition no_low_escape :: "pystr \<Rightarrow> bool" where
  "no_low_escape x =
     (case x of
        bs # u # e # f # g # h # s3 \<Rightarrow>
          \<not> (bs = 92 \<and> u = 117)
          \<or> (case decode_hex4 e f g h of None \<Rightarrow> False | Some uni2 \<Rightarrow> \<not> low_surrogate uni2)
      | _ \<Rightarrow> True)"

section \<open>Invariants of the parser loop\<close>

text \<open>The state in which \<^verbatim>\<open>_parse_known_args\<close> enters its loop.\<close>

definition initial_state :: pstate where
  "initial_state =
     \<lparr>namespace = default_namespace, extras = [],
      positionals = Some Act_non_option_arguments, seen_actions = []\<rparr>"

text \<open>
  The positional is still to be parsed, or it has been parsed and its value is in the
  namespace.
\<close>

definition pending_ok :: "pstate \<Rightarrow> bool" where
  "pending_ok st =
     (case positionals st of
        Some a \<Rightarrow> a = Act_non_option_arguments
      | None \<Rightarrow> cmd_non_option_arguments (namespace st) \<noteq> None
                \<and> Act_non_option_arguments \<in> set (seen_actions st))"

text \<open>The value of \<^verbatim>\<open>--model\<close>, when there is one, is a list of one string.\<close>

definition model_ok :: "pstate \<Rightarrow> bool" where
  "model_ok st = (case cmd_model (namespace st) of None \<Rightarrow> True | Some l \<Rightarrow> length l = 1)"

text \<open>
  What the loop adds to \<^verbatim>\<open>extras\<close>: argument strings that stand for no option, among
  them every unknown option.
\<close>

definition ext_rel :: "pstate \<Rightarrow> targ list \<Rightarrow> pstate \<Rightarrow> bool" where
  "ext_rel st rest st' =
     (\<exists>new. extras st' = extras st @ new \<and> set new \<subseteq> arg_string ` set rest
        \<and> (\<forall>x \<in> set new. option_action x = None)
        \<and> (\<forall>s. Opt s (None, s, None) \<in> set rest \<longrightarrow> s \<in> set new))"

section \<open>Facts about the parser\<close>

declare parse_loop.simps [simp del]

lemma split_at_option_Some:
  "split_at_option rest = (pre, Some (s, t, r)) \<Longrightarrow>
     rest = pre @ Opt s t # r \<and> (\<forall>x \<in> set pre. \<not> is_option x)"
  by (induction rest arbitrary: pre rule: split_at_option.induct) (auto split: prod.splits)

lemma split_at_option_append:
  "\<forall>x \<in> set pre. \<not> is_option x \<Longrightarrow> split_at_option (pre @ Opt s t # r) = (pre, Some (s, t, r))"
  by (induction pre) (auto elim: is_option.elims)

lemma split_at_option_none:
  "\<forall>x \<in> set rest. \<not> is_option x \<Longrightarrow> split_at_option rest = (rest, None)"
  by (induction rest) (auto elim: is_option.elims)

lemma split_cases:
  obtains (none) "\<forall>x \<in> set rest. \<not> is_option x"
  | (some) pre s t r where "rest = pre @ Opt s t # r" "\<forall>x \<in> set pre. \<not> is_option x"
proof (cases "split_at_option rest")
  case (Pair pre opt)
  show ?thesis
  proof (cases opt)
    case None
    with Pair none show ?thesis
      by (induction rest arbitrary: pre rule: split_at_option.induct) (auto split: prod.splits)
  next
    case (Some a)
    then show ?thesis using Pair some split_at_option_Some by (cases a) force
  qed
qed

lemma takeWhile_two:
  "(\<And>x. Q x \<Longrightarrow> P x) \<Longrightarrow>
   length (takeWhile Q p) + length (takeWhile P (drop (length (takeWhile Q p)) p))
     = length (takeWhile P p)"
  by (induction p) auto

lemma nargs_match_positional:
  "nargs_match Act_non_option_arguments p =
     Some (length (takeWhile (\<lambda>c. c = CHR ''A'' \<or> c = CHR ''-'') p))"
  using takeWhile_two [of "\<lambda>c. c = CHR ''-''" "\<lambda>c. c = CHR ''A'' \<or> c = CHR ''-''" p]
  by (simp add: nargs_match_def dashes_def)

lemma pattern_takeWhile:
  "length (takeWhile (\<lambda>c. c = CHR ''A'' \<or> c = CHR ''-'') (map pattern_of rest))
     = length (takeWhile (\<lambda>t. \<not> is_option t) rest)"
proof (induction rest)
  case Nil
  then show ?case by simp
next
  case (Cons x rest)
  then show ?case by (cases x) auto
qed

lemma consume_positionals_none:
  "positionals st = None \<Longrightarrow> consume_positionals st rest = (st, 0)"
  by (simp add: consume_positionals_def)

lemma consume_positionals_some:
  "positionals st = Some Act_non_option_arguments \<Longrightarrow>
   consume_positionals st rest =
     ((take_action Act_non_option_arguments
         (take (length (takeWhile (\<lambda>t. \<not> is_option t) rest)) (map arg_string rest)) st)
        \<lparr>positionals := None\<rparr>,
      length (takeWhile (\<lambda>t. \<not> is_option t) rest))"
  by (simp add: consume_positionals_def nargs_match_positional pattern_takeWhile)

lemma parse_loop_exit:
  "\<forall>x \<in> set rest. \<not> is_option x \<Longrightarrow> parse_loop st rest = Inr (st, rest)"
  by (subst parse_loop.simps) (simp add: split_at_option_none)

lemma parse_loop_at_option:
  "parse_loop st (Opt arg tuple # following) =
     (case consume_optional st arg tuple following of
        Inl e \<Rightarrow> Inl e
      | Inr (st2, c) \<Rightarrow> parse_loop st2 (drop c following))"
  by (subst parse_loop.simps) simp

lemma parse_loop_step:
  assumes "\<forall>x \<in> set pre. \<not> is_option x"
    and "positionals st = None \<or> positionals st = Some Act_non_option_arguments"
  shows "parse_loop st (pre @ Opt arg tuple # following) =
     (case consume_optional (absorb st pre) arg tuple following of
        Inl e \<Rightarrow> Inl e
      | Inr (st2, c) \<Rightarrow> parse_loop st2 (drop c following))"
proof (cases "pre = []")
  case True
  then show ?thesis by (simp add: parse_loop_at_option absorb_def)
next
  case False
  have tw: "takeWhile (\<lambda>t. \<not> is_option t) (pre @ Opt arg tuple # following) = pre"
    using assms(1) by (simp add: takeWhile_append2)
  from assms(2) show ?thesis
  proof
    assume n: "positionals st = None"
    show ?thesis
      by (subst parse_loop.simps)
         (simp add: split_at_option_append [OF assms(1)] False consume_positionals_none [OF n]
            absorb_def n)
  next
    assume p: "positionals st = Some Act_non_option_arguments"
    show ?thesis
      by (subst parse_loop.simps)
         (simp add: split_at_option_append [OF assms(1)] False consume_positionals_some [OF p]
            tw absorb_def p parse_loop_at_option)
  qed
qed


lemma pos_ok_absorb: "pos_ok st \<Longrightarrow> pos_ok (absorb st pre)"
  by (auto simp: pos_ok_def absorb_def take_action_def)

lemma pos_ok_take_action: "pos_ok st \<Longrightarrow> pos_ok (take_action a xs st)"
  by (auto simp: pos_ok_def take_action_def)

lemma pos_ok_extras: "pos_ok st \<Longrightarrow> pos_ok (st\<lparr>extras := xs\<rparr>)"
  by (auto simp: pos_ok_def)

lemma map_of_osa:
  "map_of option_string_actions s = Some a \<Longrightarrow> a \<noteq> Act_non_option_arguments"
  by (auto simp: option_string_actions_def parser_actions_def split: if_splits)

lemma osa_set:
  "(os, a) \<in> set option_string_actions \<Longrightarrow> a \<noteq> Act_non_option_arguments"
  by (auto simp: option_string_actions_def parser_actions_def)

lemma get_option_tuples_action:
  "(Some a, os, ea) \<in> set (get_option_tuples s) \<Longrightarrow> a \<noteq> Act_non_option_arguments"
  unfolding get_option_tuples_def
  by (auto split: list.splits if_splits prod.splits dest: osa_set)

lemma hd_single:
  "length (get_option_tuples s) = Suc 0 \<Longrightarrow> hd (get_option_tuples s) \<in> set (get_option_tuples s)"
  by (cases "get_option_tuples s") auto

lemma get_option_tuples_known: "(None, os, ea) \<notin> set (get_option_tuples s)"
  unfolding get_option_tuples_def
  by (auto split: list.splits if_splits prod.splits)

lemma parse_optional_Some:
  assumes "parse_optional s = Inr (Some t)"
  shows "(\<exists>a os ea. t = (Some a, os, ea) \<and> map_of option_string_actions os = Some a)
       \<or> t \<in> set (get_option_tuples s)
       \<or> t = (None, s, None)"
proof -
  have "length (get_option_tuples s) = Suc 0 \<Longrightarrow> t = hd (get_option_tuples s)
          \<Longrightarrow> t \<in> set (get_option_tuples s)"
    using hd_single by simp
  with assms show ?thesis
    unfolding parse_optional_def Let_def
    by (auto split: if_splits option.splits prod.splits)
qed

lemma parse_optional_action:
  assumes "parse_optional s = Inr (Some (Some a, os, ea))"
  shows "a \<noteq> Act_non_option_arguments"
  using parse_optional_Some [OF assms] map_of_osa get_option_tuples_action by blast

lemma parse_optional_unknown:
  assumes "parse_optional s = Inr (Some (None, os, ea))"
  shows "os = s \<and> ea = None \<and> startswith s ''-''"
proof -
  have "s \<noteq> [] \<and> hd s = CHR ''-''"
    using assms unfolding parse_optional_def by (auto split: if_splits)
  then have "startswith s ''-''" by (cases s) (auto simp: startswith_def)
  moreover have "os = s \<and> ea = None"
    using parse_optional_Some [OF assms] get_option_tuples_known [of os ea s] by auto
  ultimately show ?thesis by simp
qed

lemma match_n_one:
  "match_n False (Suc 0) p = (case p of [] \<Rightarrow> None | c # r \<Rightarrow> if c = CHR ''A'' then Some 1 else None)"
  by (cases p) (auto simp: dashes_def)

lemma match_argument_help: "match_argument Act_help p = Inr 0"
  by (simp add: match_argument_def nargs_match_def dashes_def)

lemma match_argument_url:
  "match_argument Act_url p =
     (case p of [] \<Rightarrow> Inl (Expected_one_argument Act_url)
      | c # r \<Rightarrow> if c = CHR ''A'' then Inr 1 else Inl (Expected_one_argument Act_url))"
  by (cases p) (auto simp: match_argument_def nargs_match_def dashes_def)

lemma match_argument_model:
  "match_argument Act_model p =
     (case p of [] \<Rightarrow> Inl (Expected_n_arguments Act_model 1)
      | c # r \<Rightarrow> if c = CHR ''A'' then Inr 1 else Inl (Expected_n_arguments Act_model 1))"
  by (cases p) (auto simp: match_argument_def nargs_match_def dashes_def)

lemma consume_optional_unknown:
  "consume_optional st arg (None, os, ea) following = Inr (st\<lparr>extras := extras st @ [arg]\<rparr>, 0)"
  by (simp add: consume_optional_def)

lemma consume_optional_help:
  "consume_optional st arg (Some Act_help, os, ea) following =
     (case ea of None \<Rightarrow> Inr (take_action Act_help [] st, 0)
      | Some x \<Rightarrow> Inl (Ignored_explicit_argument Act_help x))"
  by (simp add: consume_optional_def match_argument_help split: option.splits)

lemma consume_optional_value:
  assumes "a = Act_url \<or> a = Act_model"
  shows "consume_optional st arg (Some a, os, ea) following =
     (case ea of
        Some x \<Rightarrow> Inr (take_action a [x] st, 0)
      | None \<Rightarrow>
         (case following of
            Arg v # r \<Rightarrow> Inr (take_action a [v] st, 1)
          | _ \<Rightarrow> Inl (if a = Act_url then Expected_one_argument a else Expected_n_arguments a 1)))"
  using assms
  by (auto simp: consume_optional_def match_argument_url match_argument_model
      split: option.splits list.splits targ.splits)

lemma well_scanned_append:
  "well_scanned (pre @ Opt s t # r) \<Longrightarrow>
     (\<forall>x \<in> set pre. scanned_token x) \<and> parse_optional s = Inr (Some t) \<and> s \<noteq> ''--''
     \<and> well_scanned r"
proof (induction pre)
  case Nil
  then show ?case by simp
next
  case (Cons x pre)
  then show ?case by (cases x) auto
qed

lemma well_scanned_tl: "well_scanned (Arg v # r) \<Longrightarrow> well_scanned r"
  by simp

lemma parse_loop_induct [consumes 3, case_names at_end unknown_opt help_opt explicit_opt value_opt]:
  assumes res: "parse_loop st rest = Inr (st', rest')"
    and pos: "pos_ok st"
    and ws: "well_scanned rest"
    and at_end: "\<And>st rest. pos_ok st \<Longrightarrow> well_scanned rest \<Longrightarrow> \<forall>x \<in> set rest. \<not> is_option x
               \<Longrightarrow> Q st rest st rest"
    and unknown_opt: "\<And>st pre arg following st' rest'.
        pos_ok st \<Longrightarrow> \<forall>x \<in> set pre. \<not> is_option x \<and> scanned_token x \<Longrightarrow>
        parse_optional arg = Inr (Some (None, arg, None)) \<Longrightarrow> arg \<noteq> ''--'' \<Longrightarrow>
        well_scanned following \<Longrightarrow>
        Q ((absorb st pre)\<lparr>extras := extras (absorb st pre) @ [arg]\<rparr>) following st' rest' \<Longrightarrow>
        Q st (pre @ Opt arg (None, arg, None) # following) st' rest'"
    and help_opt: "\<And>st pre arg os following st' rest'.
        pos_ok st \<Longrightarrow> \<forall>x \<in> set pre. \<not> is_option x \<and> scanned_token x \<Longrightarrow>
        parse_optional arg = Inr (Some (Some Act_help, os, None)) \<Longrightarrow> arg \<noteq> ''--'' \<Longrightarrow>
        well_scanned following \<Longrightarrow>
        Q (take_action Act_help [] (absorb st pre)) following st' rest' \<Longrightarrow>
        Q st (pre @ Opt arg (Some Act_help, os, None) # following) st' rest'"
    and explicit_opt: "\<And>st pre arg a os x following st' rest'.
        pos_ok st \<Longrightarrow> \<forall>x \<in> set pre. \<not> is_option x \<and> scanned_token x \<Longrightarrow>
        a = Act_url \<or> a = Act_model \<Longrightarrow>
        parse_optional arg = Inr (Some (Some a, os, Some x)) \<Longrightarrow> arg \<noteq> ''--'' \<Longrightarrow>
        well_scanned following \<Longrightarrow>
        Q (take_action a [x] (absorb st pre)) following st' rest' \<Longrightarrow>
        Q st (pre @ Opt arg (Some a, os, Some x) # following) st' rest'"
    and value_opt: "\<And>st pre arg a os v following st' rest'.
        pos_ok st \<Longrightarrow> \<forall>x \<in> set pre. \<not> is_option x \<and> scanned_token x \<Longrightarrow>
        a = Act_url \<or> a = Act_model \<Longrightarrow>
        parse_optional arg = Inr (Some (Some a, os, None)) \<Longrightarrow> arg \<noteq> ''--'' \<Longrightarrow>
        scanned_token (Arg v) \<Longrightarrow>
        well_scanned following \<Longrightarrow>
        Q (take_action a [v] (absorb st pre)) following st' rest' \<Longrightarrow>
        Q st (pre @ Opt arg (Some a, os, None) # Arg v # following) st' rest'"
  shows "Q st rest st' rest'"
  using res pos ws
proof (induction "length rest" arbitrary: st rest rule: less_induct)
  case less
  show ?case
  proof (cases rule: split_cases [of rest])
    case none
    with less.prems at_end show ?thesis by (simp add: parse_loop_exit)
  next
    case (some pre arg tuple following)
    note r = some(1)
    from less.prems(3) have w: "\<forall>x \<in> set pre. scanned_token x"
      "parse_optional arg = Inr (Some tuple)" "arg \<noteq> ''--''" "well_scanned following"
      using well_scanned_append unfolding r by blast+
    have pre: "\<forall>x \<in> set pre. \<not> is_option x \<and> scanned_token x" using some(2) w(1) by blast
    have pa: "pos_ok (absorb st pre)" using less.prems(2) by (rule pos_ok_absorb)
    have step: "parse_loop st rest =
       (case consume_optional (absorb st pre) arg tuple following of
          Inl e \<Rightarrow> Inl e
        | Inr (st2, c) \<Rightarrow> parse_loop st2 (drop c following))"
      unfolding r using parse_loop_step [OF some(2)] less.prems(2) by (simp add: pos_ok_def)
    obtain act os ea where t: "tuple = (act, os, ea)" by (cases tuple)
    show ?thesis
    proof (cases act)
      case None
      with w(2) t have e: "os = arg" "ea = None" using parse_optional_unknown by blast+
      have l: "parse_loop ((absorb st pre)\<lparr>extras := extras (absorb st pre) @ [arg]\<rparr>) following
                = Inr (st', rest')"
        using less.prems(1) unfolding step t None by (simp add: consume_optional_unknown)
      have "Q ((absorb st pre)\<lparr>extras := extras (absorb st pre) @ [arg]\<rparr>) following st' rest'"
        by (rule less.hyps [OF _ l pos_ok_extras [OF pa] w(4)]) (simp add: r)
      from unknown_opt [OF less.prems(2) pre _ w(3) w(4) this] w(2) t None e
      show ?thesis unfolding r by simp
    next
      case (Some a)
      have na: "a \<noteq> Act_non_option_arguments"
        using parse_optional_action w(2) t Some by blast
      show ?thesis
      proof (cases "a = Act_help")
        case True
        from less.prems(1) have ea: "ea = None"
          and l: "parse_loop (take_action Act_help [] (absorb st pre)) following = Inr (st', rest')"
          unfolding step t Some True
          by (auto simp: consume_optional_help split: option.splits)
        have "Q (take_action Act_help [] (absorb st pre)) following st' rest'"
          by (rule less.hyps [OF _ l pos_ok_take_action [OF pa] w(4)]) (simp add: r)
        from help_opt [OF less.prems(2) pre _ w(3) w(4) this] w(2) t Some True ea
        show ?thesis unfolding r by simp
      next
        case False
        with na have av: "a = Act_url \<or> a = Act_model" by (cases a) auto
        show ?thesis
        proof (cases ea)
          case (Some x)
          have l: "parse_loop (take_action a [x] (absorb st pre)) following = Inr (st', rest')"
            using less.prems(1) unfolding step t \<open>act = Some a\<close> Some
            by (simp add: consume_optional_value [OF av])
          have "Q (take_action a [x] (absorb st pre)) following st' rest'"
            by (rule less.hyps [OF _ l pos_ok_take_action [OF pa] w(4)]) (simp add: r)
          from explicit_opt [OF less.prems(2) pre av _ w(3) w(4) this] w(2) t \<open>act = Some a\<close> Some
          show ?thesis unfolding r by simp
        next
          case None
          from less.prems(1) obtain v f where f: "following = Arg v # f"
            and l: "parse_loop (take_action a [v] (absorb st pre)) f = Inr (st', rest')"
            unfolding step t \<open>act = Some a\<close> None
            by (auto simp: consume_optional_value [OF av] split: list.splits targ.splits)
          from w(4) f have wf: "scanned_token (Arg v)" "well_scanned f" by simp_all
          have "Q (take_action a [v] (absorb st pre)) f st' rest'"
            by (rule less.hyps [OF _ l pos_ok_take_action [OF pa] wf(2)]) (simp add: r f)
          from value_opt [OF less.prems(2) pre av _ w(3) wf this] w(2) t \<open>act = Some a\<close> None
          show ?thesis unfolding r f by simp
        qed
      qed
    qed
  qed
qed

lemma has_option_simps [simp]:
  "has_option a [] = False"
  "has_option a (Opt s (Some b, os, ea) # r) = (b = a \<or> has_option a r)"
  "has_option a (Opt s (None, os, ea) # r) = has_option a r"
  "has_option a (Arg v # r) = has_option a r"
  "has_option a (Dashes # r) = has_option a r"
  "has_option a (xs @ ys) = (has_option a xs \<or> has_option a ys)"
  by (auto simp: has_option_def)

lemma has_option_none: "\<forall>x \<in> set pre. \<not> is_option x \<and> P x \<Longrightarrow> \<not> has_option a pre"
  by (auto simp: has_option_def split: targ.splits)

lemma absorb_fields:
  "pos_ok st \<Longrightarrow> cmd_help (namespace (absorb st pre)) = cmd_help (namespace st)"
  "pos_ok st \<Longrightarrow> cmd_model (namespace (absorb st pre)) = cmd_model (namespace st)"
  "pos_ok st \<Longrightarrow> cmd_url (namespace (absorb st pre)) = cmd_url (namespace st)"
  by (auto simp: pos_ok_def absorb_def take_action_def)

lemma take_action_fields:
  "cmd_help (namespace (take_action Act_help xs st)) = Some True"
  "cmd_model (namespace (take_action Act_help xs st)) = cmd_model (namespace st)"
  "cmd_help (namespace (take_action Act_url xs st)) = cmd_help (namespace st)"
  "cmd_model (namespace (take_action Act_url xs st)) = cmd_model (namespace st)"
  "cmd_help (namespace (take_action Act_model xs st)) = cmd_help (namespace st)"
  "cmd_model (namespace (take_action Act_model xs st)) = Some xs"
  by (auto simp: take_action_def split: list.splits)

lemma loop_help:
  assumes "parse_loop st rest = Inr (st', rest')" "pos_ok st" "well_scanned rest"
  shows "cmd_help (namespace st') =
           (if has_option Act_help rest then Some True else cmd_help (namespace st))"
  using assms
proof (induction rule: parse_loop_induct)
  case (at_end st rest)
  then show ?case using has_option_none [of rest "\<lambda>x. True"] by simp
next
  case (unknown_opt st pre arg following st' rest')
  then show ?case using has_option_none [OF unknown_opt(2)] by (simp add: absorb_fields)
next
  case (help_opt st pre arg os following st' rest')
  then show ?case by (simp add: take_action_fields)
next
  case (explicit_opt st pre arg a os x following st' rest')
  then show ?case using has_option_none [OF explicit_opt(2)]
    by (auto simp: absorb_fields take_action_fields)
next
  case (value_opt st pre arg a os v following st' rest')
  then show ?case using has_option_none [OF value_opt(2)]
    by (auto simp: absorb_fields take_action_fields)
qed



lemma loop_model_none:
  assumes "parse_loop st rest = Inr (st', rest')" "pos_ok st" "well_scanned rest"
  shows "(cmd_model (namespace st') = None) =
           (cmd_model (namespace st) = None \<and> \<not> has_option Act_model rest)"
  using assms
proof (induction rule: parse_loop_induct)
  case (at_end st rest)
  then show ?case using has_option_none [of rest "\<lambda>x. True"] by simp
next
  case (unknown_opt st pre arg following st' rest')
  then show ?case using has_option_none [OF unknown_opt(2)] by (simp add: absorb_fields)
next
  case (help_opt st pre arg os following st' rest')
  then show ?case using has_option_none [OF help_opt(2)]
    by (simp add: absorb_fields take_action_fields)
next
  case (explicit_opt st pre arg a os x following st' rest')
  from explicit_opt(3) show ?case
  proof
    assume "a = Act_url"
    with explicit_opt show ?thesis using has_option_none [OF explicit_opt(2)]
      by (simp add: absorb_fields take_action_fields)
  next
    assume "a = Act_model"
    with explicit_opt show ?thesis by (simp add: absorb_fields take_action_fields)
  qed
next
  case (value_opt st pre arg a os v following st' rest')
  from value_opt(3) show ?case
  proof
    assume "a = Act_url"
    with value_opt show ?thesis using has_option_none [OF value_opt(2)]
      by (simp add: absorb_fields take_action_fields)
  next
    assume "a = Act_model"
    with value_opt show ?thesis by (simp add: absorb_fields take_action_fields)
  qed
qed

lemma loop_invariant:
  assumes "parse_loop st rest = Inr (st', rest')" "pos_ok st" "well_scanned rest"
    and "I st"
    and "\<And>st pre. I st \<Longrightarrow> pos_ok st \<Longrightarrow> I (absorb st pre)"
    and "\<And>st x. I st \<Longrightarrow> I (st\<lparr>extras := extras st @ [x]\<rparr>)"
    and "\<And>st. I st \<Longrightarrow> I (take_action Act_help [] st)"
    and "\<And>st a x. a = Act_url \<or> a = Act_model \<Longrightarrow> I st \<Longrightarrow> I (take_action a [x] st)"
  shows "I st'"
  using assms(1-4)
proof (induction rule: parse_loop_induct)
  case (at_end st rest)
  then show ?case by simp
next
  case (unknown_opt st pre arg following st' rest')
  then show ?case using assms(5,6) by blast
next
  case (help_opt st pre arg os following st' rest')
  then show ?case using assms(5,7) by blast
next
  case (explicit_opt st pre arg a os x following st' rest')
  then show ?case using assms(5,8) by blast
next
  case (value_opt st pre arg a os v following st' rest')
  then show ?case using assms(5,8) by blast
qed

lemma loop_rest:
  assumes "parse_loop st rest = Inr (st', rest')" "pos_ok st" "well_scanned rest"
  shows "pos_ok st' \<and> well_scanned rest' \<and> (\<forall>x \<in> set rest'. \<not> is_option x)
         \<and> set rest' \<subseteq> set rest"
  using assms
proof (induction rule: parse_loop_induct)
  case (at_end st rest)
  then show ?case by simp
next
  case (unknown_opt st pre arg following st' rest')
  then show ?case by auto
next
  case (help_opt st pre arg os following st' rest')
  then show ?case by auto
next
  case (explicit_opt st pre arg a os x following st' rest')
  then show ?case by auto
next
  case (value_opt st pre arg a os v following st' rest')
  then show ?case by auto
qed

lemma loop_pending:
  assumes "parse_loop st rest = Inr (st', rest')" "pos_ok st" "well_scanned rest"
    and "pending_ok st"
  shows "pending_ok st'"
  by (rule loop_invariant [OF assms(1-3), of pending_ok, OF assms(4)])
     (auto simp: pending_ok_def absorb_def take_action_def pos_ok_def
       split: option.splits list.splits)

lemma loop_model_ok:
  assumes "parse_loop st rest = Inr (st', rest')" "pos_ok st" "well_scanned rest"
    and "model_ok st"
  shows "model_ok st'"
  by (rule loop_invariant [OF assms(1-3), of model_ok, OF assms(4)])
     (auto simp: model_ok_def absorb_def take_action_def pos_ok_def
       split: option.splits list.splits)

lemma scanned_no_action:
  "scanned_token x \<Longrightarrow> \<not> is_option x \<Longrightarrow> option_action (arg_string x) = None"
  by (cases x) (auto simp: option_action_def)

lemma unknown_no_action:
  "parse_optional s = Inr (Some (None, os, ea)) \<Longrightarrow> option_action s = None"
  by (simp add: option_action_def)

lemma absorb_extras:
  "\<exists>mid. extras (absorb st pre) = extras st @ mid \<and> set mid \<subseteq> arg_string ` set pre"
proof (cases "pre = []")
  case True
  then show ?thesis by (simp add: absorb_def)
next
  case False
  show ?thesis
  proof (cases "positionals st")
    case None
    with False have "extras (absorb st pre) = extras st @ map arg_string pre"
      by (simp add: absorb_def)
    then show ?thesis by auto
  next
    case (Some a)
    with False have "extras (absorb st pre) = extras st @ []"
      by (simp add: absorb_def take_action_def)
    then show ?thesis by (intro exI [of _ "[]"]) simp
  qed
qed

lemma ext_rel_trans:
  assumes "extras st1 = extras st @ mid"
    and "set mid \<subseteq> arg_string ` set front"
    and "\<forall>x \<in> set mid. option_action x = None"
    and "\<forall>s. Opt s (None, s, None) \<in> set front \<longrightarrow> s \<in> set mid"
    and "ext_rel st1 back st'"
  shows "ext_rel st (front @ back) st'"
proof -
  from assms(5) obtain new where n: "extras st' = extras st1 @ new"
    "set new \<subseteq> arg_string ` set back" "\<forall>x \<in> set new. option_action x = None"
    "\<forall>s. Opt s (None, s, None) \<in> set back \<longrightarrow> s \<in> set new"
    unfolding ext_rel_def by blast
  have 1: "extras st' = extras st @ (mid @ new)" using n(1) assms(1) by simp
  have 2: "set (mid @ new) \<subseteq> arg_string ` set (front @ back)"
    using n(2) assms(2) by auto
  have 3: "\<forall>x \<in> set (mid @ new). option_action x = None" using n(3) assms(3) by auto
  have 4: "\<forall>s. Opt s (None, s, None) \<in> set (front @ back) \<longrightarrow> s \<in> set (mid @ new)"
    using n(4) assms(4) by auto
  show ?thesis unfolding ext_rel_def by (intro exI [of _ "mid @ new"] conjI 1 2 3 4)
qed

lemma no_option_member: "\<forall>x \<in> set pre. \<not> is_option x \<and> P x \<Longrightarrow> Opt s t \<notin> set pre"
proof
  assume a: "\<forall>x \<in> set pre. \<not> is_option x \<and> P x" and "Opt s t \<in> set pre"
  then have "\<not> is_option (Opt s t)" by blast
  then show False by simp
qed

lemma absorb_front:
  assumes "\<forall>x \<in> set pre. \<not> is_option x \<and> scanned_token x"
  obtains mid where "extras (absorb st pre) = extras st @ mid"
    "set mid \<subseteq> arg_string ` set pre" "\<forall>x \<in> set mid. option_action x = None"
    "\<forall>s. Opt s (None, s, None) \<in> set pre \<longrightarrow> s \<in> set mid"
proof -
  from absorb_extras obtain mid where m: "extras (absorb st pre) = extras st @ mid"
    "set mid \<subseteq> arg_string ` set pre" by blast
  have 3: "\<forall>x \<in> set mid. option_action x = None"
  proof
    fix x assume "x \<in> set mid"
    with m(2) obtain t where t: "t \<in> set pre" "x = arg_string t" by blast
    with assms have "scanned_token t" "\<not> is_option t" by blast+
    then show "option_action x = None" unfolding t(2) by (rule scanned_no_action)
  qed
  have 4: "\<forall>s. Opt s (None, s, None) \<in> set pre \<longrightarrow> s \<in> set mid"
    using no_option_member [OF assms] by blast
  show thesis by (rule that [OF m 3 4])
qed

lemma loop_extras:
  assumes "parse_loop st rest = Inr (st', rest')" "pos_ok st" "well_scanned rest"
  shows "ext_rel st rest st'"
  using assms
proof (induction rule: parse_loop_induct)
  case (at_end st rest)
  have "\<forall>s. Opt s (None, s, None) \<notin> set rest"
    using no_option_member [of rest "\<lambda>x. True"] at_end(3) by blast
  then show ?case unfolding ext_rel_def by (intro exI [of _ "[]"]) simp
next
  case (unknown_opt st pre arg following st' rest')
  obtain mid where m: "extras (absorb st pre) = extras st @ mid"
    "set mid \<subseteq> arg_string ` set pre" "\<forall>x \<in> set mid. option_action x = None"
    "\<forall>s. Opt s (None, s, None) \<in> set pre \<longrightarrow> s \<in> set mid"
    using absorb_front [OF unknown_opt(2)] by blast
  have a: "option_action arg = None" using unknown_opt(3) by (rule unknown_no_action)
  have "ext_rel st ((pre @ [Opt arg (None, arg, None)]) @ following) st'"
  proof (rule ext_rel_trans [OF _ _ _ _ unknown_opt(6)])
    show "extras ((absorb st pre)\<lparr>extras := extras (absorb st pre) @ [arg]\<rparr>)
            = extras st @ (mid @ [arg])" using m(1) by simp
    show "set (mid @ [arg]) \<subseteq> arg_string ` set (pre @ [Opt arg (None, arg, None)])"
      using m(2) by auto
    show "\<forall>x \<in> set (mid @ [arg]). option_action x = None" using m(3) a by simp
    show "\<forall>s. Opt s (None, s, None) \<in> set (pre @ [Opt arg (None, arg, None)])
            \<longrightarrow> s \<in> set (mid @ [arg])" using m(4) by simp
  qed
  then show ?case by simp
next
  case (help_opt st pre arg os following st' rest')
  obtain mid where m: "extras (absorb st pre) = extras st @ mid"
    "set mid \<subseteq> arg_string ` set pre" "\<forall>x \<in> set mid. option_action x = None"
    "\<forall>s. Opt s (None, s, None) \<in> set pre \<longrightarrow> s \<in> set mid"
    using absorb_front [OF help_opt(2)] by blast
  have "ext_rel st ((pre @ [Opt arg (Some Act_help, os, None)]) @ following) st'"
  proof (rule ext_rel_trans [OF _ _ _ _ help_opt(6)])
    show "extras (take_action Act_help [] (absorb st pre)) = extras st @ mid"
      using m(1) by (simp add: take_action_def)
    show "set mid \<subseteq> arg_string ` set (pre @ [Opt arg (Some Act_help, os, None)])"
      using m(2) by auto
    show "\<forall>x \<in> set mid. option_action x = None" using m(3) by simp
    show "\<forall>s. Opt s (None, s, None) \<in> set (pre @ [Opt arg (Some Act_help, os, None)])
            \<longrightarrow> s \<in> set mid" using m(4) by simp
  qed
  then show ?case by simp
next
  case (explicit_opt st pre arg a os x following st' rest')
  obtain mid where m: "extras (absorb st pre) = extras st @ mid"
    "set mid \<subseteq> arg_string ` set pre" "\<forall>x \<in> set mid. option_action x = None"
    "\<forall>s. Opt s (None, s, None) \<in> set pre \<longrightarrow> s \<in> set mid"
    using absorb_front [OF explicit_opt(2)] by blast
  have "ext_rel st ((pre @ [Opt arg (Some a, os, Some x)]) @ following) st'"
  proof (rule ext_rel_trans [OF _ _ _ _ explicit_opt(7)])
    show "extras (take_action a [x] (absorb st pre)) = extras st @ mid"
      using m(1) by (simp add: take_action_def)
    show "set mid \<subseteq> arg_string ` set (pre @ [Opt arg (Some a, os, Some x)])"
      using m(2) by auto
    show "\<forall>x \<in> set mid. option_action x = None" using m(3) by simp
    show "\<forall>s. Opt s (None, s, None) \<in> set (pre @ [Opt arg (Some a, os, Some x)])
            \<longrightarrow> s \<in> set mid" using m(4) by simp
  qed
  then show ?case by simp
next
  case (value_opt st pre arg a os v following st' rest')
  obtain mid where m: "extras (absorb st pre) = extras st @ mid"
    "set mid \<subseteq> arg_string ` set pre" "\<forall>x \<in> set mid. option_action x = None"
    "\<forall>s. Opt s (None, s, None) \<in> set pre \<longrightarrow> s \<in> set mid"
    using absorb_front [OF value_opt(2)] by blast
  have "ext_rel st ((pre @ [Opt arg (Some a, os, None), Arg v]) @ following) st'"
  proof (rule ext_rel_trans [OF _ _ _ _ value_opt(8)])
    show "extras (take_action a [v] (absorb st pre)) = extras st @ mid"
      using m(1) by (simp add: take_action_def)
    show "set mid \<subseteq> arg_string ` set (pre @ [Opt arg (Some a, os, None), Arg v])"
      using m(2) by auto
    show "\<forall>x \<in> set mid. option_action x = None" using m(3) by simp
    show "\<forall>s. Opt s (None, s, None) \<in> set (pre @ [Opt arg (Some a, os, None), Arg v])
            \<longrightarrow> s \<in> set mid" using m(4) by simp
  qed
  then show ?case by simp
qed

lemma option_action_dashes: "option_action ''--'' = None"
  by (simp add: option_action_def parse_optional_def option_string_actions_def
      parser_actions_def get_option_tuples_def startswith_def)

lemma scan_facts:
  assumes "scan_arg_strings args = Inr ts"
  shows "well_scanned ts" and "map arg_string ts = args"
    and "has_option a ts = (\<exists>t \<in> set (option_part args). option_action t = Some a)"
    and "(Opt s (None, s, None) \<in> set ts) = (s \<in> set (option_part args) \<and> unknown_option s)"
  using assms
proof (induction args arbitrary: ts)
  case Nil
  { case 1 then show ?case by simp }
  { case 2 then show ?case by simp }
  { case 3 then show ?case by (simp add: option_part_def) }
  { case 4 then show ?case by (simp add: option_part_def) }
next
  case (Cons x xs)
  show "well_scanned ts" if "scan_arg_strings (x # xs) = Inr ts" for ts
  proof (cases "x = ''--''")
    case True
    with that show ?thesis by auto
  next
    case False
    with that obtain ot ts' where o: "parse_optional x = Inr ot"
      "scan_arg_strings xs = Inr ts'"
      "ts = (case ot of None \<Rightarrow> Arg x | Some t \<Rightarrow> Opt x t) # ts'"
      by (auto split: sum.splits)
    with Cons(1) [OF o(2)] False show ?thesis by (cases ot) auto
  qed
  show "map arg_string ts = x # xs" if "scan_arg_strings (x # xs) = Inr ts" for ts
  proof (cases "x = ''--''")
    case True
    with that show ?thesis by (auto simp: comp_def)
  next
    case False
    with that obtain ot ts' where o: "parse_optional x = Inr ot"
      "scan_arg_strings xs = Inr ts'"
      "ts = (case ot of None \<Rightarrow> Arg x | Some t \<Rightarrow> Opt x t) # ts'"
      by (auto split: sum.splits)
    with Cons(2) [OF o(2)] show ?thesis by (cases ot) auto
  qed
  show "has_option a ts = (\<exists>t \<in> set (option_part (x # xs)). option_action t = Some a)"
    if "scan_arg_strings (x # xs) = Inr ts" for ts
  proof (cases "x = ''--''")
    case True
    with that have "ts = Dashes # map Arg xs" by simp
    then have "\<not> has_option a ts" by (auto simp: has_option_def)
    with True show ?thesis by (simp add: option_part_def)
  next
    case False
    with that obtain ot ts' where o: "parse_optional x = Inr ot"
      "scan_arg_strings xs = Inr ts'"
      "ts = (case ot of None \<Rightarrow> Arg x | Some t \<Rightarrow> Opt x t) # ts'"
      by (auto split: sum.splits)
    have op: "option_part (x # xs) = x # option_part xs" using False by (simp add: option_part_def)
    show ?thesis
    proof (cases ot)
      case None
      with o Cons(3) [OF o(2)] show ?thesis by (simp add: op option_action_def)
    next
      case (Some t)
      obtain act os ea where t: "t = (act, os, ea)" by (cases t)
      with Some o Cons(3) [OF o(2)] show ?thesis
        by (cases act) (auto simp: op option_action_def)
    qed
  qed
  show "(Opt s (None, s, None) \<in> set ts)
          = (s \<in> set (option_part (x # xs)) \<and> unknown_option s)"
    if "scan_arg_strings (x # xs) = Inr ts" for ts
  proof (cases "x = ''--''")
    case True
    with that have "ts = Dashes # map Arg xs" by simp
    then have "Opt s (None, s, None) \<notin> set ts" by auto
    with True show ?thesis by (simp add: option_part_def)
  next
    case False
    with that obtain ot ts' where o: "parse_optional x = Inr ot"
      "scan_arg_strings xs = Inr ts'"
      "ts = (case ot of None \<Rightarrow> Arg x | Some t \<Rightarrow> Opt x t) # ts'"
      by (auto split: sum.splits)
    have op: "option_part (x # xs) = x # option_part xs" using False by (simp add: option_part_def)
    show ?thesis
    proof (cases ot)
      case None
      with o Cons(4) [OF o(2)] show ?thesis by (auto simp: op unknown_option_def)
    next
      case (Some t)
      with o Cons(4) [OF o(2)] show ?thesis by (auto simp: op unknown_option_def)
    qed
  qed
qed

lemma dash_safe_rest:
  assumes "well_scanned r" "\<forall>x \<in> set r. \<not> is_option x"
    and "first_dash (map arg_string r) = Some u"
  shows "option_action u = None"
  using assms
proof (induction r)
  case Nil
  then show ?case by (simp add: first_dash_def)
next
  case (Cons x r)
  show ?case
  proof (cases x)
    case (Arg s)
    show ?thesis
    proof (cases "startswith s ''-''")
      case True
      with Cons.prems Arg have "u = s" "parse_optional s = Inr None"
        by (auto simp: first_dash_def)
      then show ?thesis by (simp add: option_action_def)
    next
      case False
      with Cons Arg show ?thesis by (auto simp: first_dash_def)
    qed
  next
    case Dashes
    with Cons.prems have "u = ''--''" by (auto simp: first_dash_def startswith_def)
    then show ?thesis by (simp add: option_action_dashes)
  next
    case (Opt s t)
    with Cons.prems show ?thesis by simp
  qed
qed

lemma first_dash_append:
  "first_dash (xs @ ys) = (case first_dash xs of Some u \<Rightarrow> Some u | None \<Rightarrow> first_dash ys)"
  by (induction xs) (auto simp: first_dash_def)

lemma first_dash_member: "first_dash xs = Some u \<Longrightarrow> u \<in> set xs \<and> startswith u ''-''"
  unfolding first_dash_def by (induction xs) (auto split: if_splits)

lemma first_dash_None: "first_dash xs = None \<Longrightarrow> \<forall>x \<in> set xs. \<not> startswith x ''-''"
  unfolding first_dash_def by (induction xs) (auto split: if_splits)

lemma initial_state_ok:
  "pos_ok initial_state" "pending_ok initial_state" "model_ok initial_state"
  "cmd_help (namespace initial_state) = None" "cmd_model (namespace initial_state) = None"
  "extras initial_state = []"
  by (simp_all add: initial_state_def pos_ok_def pending_ok_def model_ok_def default_namespace_def)

lemma takeWhile_all: "\<forall>x \<in> set r. P x \<Longrightarrow> takeWhile P r = r"
  by (induction r) auto

lemma parse_known_args_Inr:
  assumes "parse_known_args args = Inr (ns, un)"
  obtains ts st rest where "scan_arg_strings args = Inr ts"
    and "parse_loop initial_state ts = Inr (st, rest)"
    and "cmd_help ns = cmd_help (namespace st)" "cmd_model ns = cmd_model (namespace st)"
    and "cmd_non_option_arguments ns \<noteq> None"
    and "(positionals st \<noteq> None \<and> un = extras st)
         \<or> (positionals st = None \<and> un = extras st @ map arg_string rest)"
proof -
  from assms obtain ts where ts: "scan_arg_strings args = Inr ts"
    unfolding parse_known_args_def by (auto split: sum.splits)
  from assms ts obtain st rest where l: "parse_loop initial_state ts = Inr (st, rest)"
    unfolding parse_known_args_def initial_state_def by (auto split: sum.splits)
  have ws: "well_scanned ts" using ts by (rule scan_facts(1))
  note r = loop_rest [OF l initial_state_ok(1) ws]
  note p = loop_pending [OF l initial_state_ok(1) ws initial_state_ok(2)]
  obtain st1 stop where c: "consume_positionals st rest = (st1, stop)" by force
  from assms ts l c have res: "ns = namespace st1" "un = extras st1 @ map arg_string (drop stop rest)"
    unfolding parse_known_args_def initial_state_def [symmetric]
    by (auto simp: Let_def split: if_splits)
  show thesis
  proof (cases "positionals st")
    case None
    with c have "st1 = st" "stop = 0" by (simp_all add: consume_positionals_none)
    with res None p that [OF ts l] show thesis by (simp add: pending_ok_def)
  next
    case (Some a)
    with p have a: "positionals st = Some Act_non_option_arguments"
      by (simp add: pending_ok_def)
    have tw: "takeWhile (\<lambda>t. \<not> is_option t) rest = rest" using r by (simp add: takeWhile_all)
    from c have "st1 = (take_action Act_non_option_arguments (map arg_string rest) st)
                  \<lparr>positionals := None\<rparr>" "stop = length rest"
      unfolding consume_positionals_some [OF a] tw by simp_all
    with res a that [OF ts l] show thesis by (simp add: take_action_def)
  qed
qed

lemma pka_help:
  assumes "parse_known_args args = Inr (ns, un)"
  shows "(cmd_help ns \<noteq> None) = (\<exists>t \<in> set (option_part args). option_action t = Some Act_help)"
proof -
  from assms obtain ts st rest where *: "scan_arg_strings args = Inr ts"
    "parse_loop initial_state ts = Inr (st, rest)" "cmd_help ns = cmd_help (namespace st)"
    by (rule parse_known_args_Inr)
  have "cmd_help (namespace st) = (if has_option Act_help ts then Some True else None)"
    using loop_help [OF *(2) initial_state_ok(1) scan_facts(1) [OF *(1)]]
    by (simp add: initial_state_ok)
  then show ?thesis unfolding *(3) scan_facts(3) [OF *(1), symmetric] by auto
qed

lemma pka_model:
  assumes "parse_known_args args = Inr (ns, un)"
  shows "(cmd_model ns = None) = (\<not> (\<exists>t \<in> set (option_part args). option_action t = Some Act_model))"
    and "cmd_model ns = Some l \<Longrightarrow> \<exists>m. l = [m]"
proof -
  from assms obtain ts st rest where *: "scan_arg_strings args = Inr ts"
    "parse_loop initial_state ts = Inr (st, rest)" "cmd_help ns = cmd_help (namespace st)"
    "cmd_model ns = cmd_model (namespace st)"
    by (rule parse_known_args_Inr)
  note ws = scan_facts(1) [OF *(1)]
  show "(cmd_model ns = None) = (\<not> (\<exists>t \<in> set (option_part args). option_action t = Some Act_model))"
    using loop_model_none [OF *(2) initial_state_ok(1) ws]
    unfolding *(4) scan_facts(3) [OF *(1), symmetric] by (simp add: initial_state_ok)
  have "model_ok st" using loop_model_ok [OF *(2) initial_state_ok(1) ws initial_state_ok(3)] .
  then show "\<exists>m. l = [m]" if "cmd_model ns = Some l"
    using that unfolding *(4) model_ok_def by (cases l) auto
qed

lemma pka_collected:
  assumes "parse_known_args args = Inr (ns, un)"
  shows "cmd_non_option_arguments ns \<noteq> None"
  using assms by (rule parse_known_args_Inr)

lemma pka_unhandled:
  assumes "parse_known_args args = Inr (ns, un)"
  shows "set un \<subseteq> set args"
    and "first_dash un = Some u \<Longrightarrow> option_action u = None"
    and "t \<in> set (option_part args) \<Longrightarrow> unknown_option t \<Longrightarrow> t \<in> set un"
proof -
  from assms obtain ts st rest where *: "scan_arg_strings args = Inr ts"
    "parse_loop initial_state ts = Inr (st, rest)"
    and un: "(positionals st \<noteq> None \<and> un = extras st)
         \<or> (positionals st = None \<and> un = extras st @ map arg_string rest)"
    by (rule parse_known_args_Inr)
  note ws = scan_facts(1) [OF *(1)]
  note r = loop_rest [OF *(2) initial_state_ok(1) ws]
  from loop_extras [OF *(2) initial_state_ok(1) ws]
  have e: "set (extras st) \<subseteq> arg_string ` set ts"
    "\<forall>x \<in> set (extras st). option_action x = None"
    "\<forall>s. Opt s (None, s, None) \<in> set ts \<longrightarrow> s \<in> set (extras st)"
    unfolding ext_rel_def by (auto simp: initial_state_ok)
  have a: "arg_string ` set ts = set args" using scan_facts(2) [OF *(1)]
    by (metis set_map)
  have "arg_string ` set rest \<subseteq> set args" using r a by blast
  moreover have "set (extras st) \<subseteq> set args" using e(1) a by simp
  ultimately show "set un \<subseteq> set args" using un by (elim disjE) auto
  show "option_action u = None" if "first_dash un = Some u"
  proof (cases "first_dash (extras st)")
    case None
    with un that have "first_dash (map arg_string rest) = Some u"
      by (auto simp: first_dash_append)
    with r show ?thesis using dash_safe_rest by blast
  next
    case (Some v)
    with un that have "u = v" by (auto simp: first_dash_append)
    moreover have "v \<in> set (extras st)" using first_dash_member [OF Some] by simp
    ultimately show ?thesis using e(2) by simp
  qed
  show "t \<in> set un" if "t \<in> set (option_part args)" "unknown_option t"
  proof -
    have "Opt t (None, t, None) \<in> set ts" using that scan_facts(4) [OF *(1)] by blast
    with e(3) un show ?thesis by auto
  qed
qed

lemma help_spelling_action: "help_spelling t \<Longrightarrow> option_action t = Some Act_help"
  unfolding help_spelling_def
  by (auto simp: option_action_def parse_optional_def option_string_actions_def parser_actions_def)

lemma resolve_Inr:
  assumes "resolve_arguments args = Inr cmdargs"
  obtains ns un m where "parse_known_args args = Inr (ns, un)" "cmd_help ns = None"
    "first_dash un = None" "cmd_model cmdargs = Some [m]" "cmd_model ns = Some [m]"
    "cmd_url cmdargs = cmd_url ns" "cmd_non_option_arguments ns = Some []" "un = []"
proof -
  from assms obtain ns un where p: "parse_known_args args = Inr (ns, un)"
    unfolding resolve_arguments_def by (auto split: sum.splits)
  from assms p have h: "cmd_help ns = None" and f: "first_dash un = None"
    unfolding resolve_arguments_def by (auto split: if_splits option.splits)
  from assms p h f obtain c where c: "cmd_non_option_arguments ns = Some c"
    unfolding resolve_arguments_def by (auto split: if_splits option.splits)
  from assms p h f c have m: "cmd_model ns \<noteq> None" and e: "c @ un = []"
    and r: "cmdargs = ns\<lparr>cmd_non_option_arguments := Some (c @ un)\<rparr>"
    unfolding resolve_arguments_def by (auto simp: Let_def split: if_splits)
  from m obtain l where "cmd_model ns = Some l" by blast
  with pka_model(2) [OF p] obtain x where "cmd_model ns = Some [x]" by blast
  with that [OF p h f] r e c show thesis by simp
qed

lemma main_resolved:
  assumes "resolve_arguments (argv e) = Inr cmdargs"
  obtains model where "cmd_model cmdargs = Some [model]"
    "main e = request e (sanitize_url (cmd_url cmdargs)) model"
proof -
  from assms obtain m where "cmd_model cmdargs = Some [m]" by (rule resolve_Inr)
  with that assms show thesis by (simp add: main_def)
qed

section \<open>Facts about the run\<close>

lemma consume_lines_no_post: "\<forall>ev \<in> set (fst (consume_lines lines failure)). \<not> is_post ev"
proof (induction lines)
  case Nil
  then show ?case by simp
next
  case (Cons line lines)
  then show ?case
    by (auto simp: print_response_def split: sum.splits json.splits prod.splits)
qed






lemma main_request:
  assumes "resolve_arguments (argv e) = Inr cmdargs" and "cmd_model cmdargs = Some [model]"
  shows "main e = request e (sanitize_url (cmd_url cmdargs)) model"
  using assms by (simp add: main_def)



lemma option_part_subset: "set (option_part args) \<subseteq> set args"
  unfolding option_part_def by (auto dest: set_takeWhileD)

lemma first_dash_exists:
  "u \<in> set xs \<Longrightarrow> startswith u ''-'' \<Longrightarrow> \<exists>v. first_dash xs = Some v"
  unfolding first_dash_def by (induction xs) auto

lemma unknown_option_dash: "unknown_option t \<Longrightarrow> startswith t ''-''"
  unfolding unknown_option_def using parse_optional_unknown by blast

lemma resolve_unrecognized:
  assumes "parse_known_args args = Inr (ns, un)" and "cmd_help ns = None"
    and "first_dash un = Some u"
  shows "resolve_arguments args = Inl ([Stderr (cps (unrecognized_option u))], Exit 1)"
  using assms by (simp add: resolve_arguments_def)

lemma first_dash_unrecognized:
  assumes "parse_known_args args = Inr (ns, un)" and "first_dash un = Some u"
  shows "u \<in> set args \<and> unrecognized_token u"
proof -
  from first_dash_member [OF assms(2)] have "u \<in> set un" "startswith u ''-''" by simp_all
  moreover have "option_action u = None" using pka_unhandled(2) [OF assms] .
  ultimately show ?thesis using pka_unhandled(1) [OF assms(1)]
    by (auto simp: unrecognized_token_def)
qed

lemma no_unrecognized_no_dashes:
  assumes "\<forall>t \<in> set args. \<not> unrecognized_token t"
  shows "option_part args = args"
proof -
  have "''--'' \<notin> set args"
    using assms option_action_dashes by (auto simp: unrecognized_token_def startswith_def)
  then have "\<forall>x \<in> set args. x \<noteq> ''--''" by blast
  then show ?thesis unfolding option_part_def by (rule takeWhile_all)
qed

lemma plain_argument:
  assumes "\<not> startswith u ''-''"
  shows "parse_optional u = Inr None" and "u \<noteq> ''--''"
proof -
  from assms have "u = [] \<or> hd u \<noteq> CHR ''-''" by (cases u) (auto simp: startswith_def)
  then show "parse_optional u = Inr None" by (auto simp: parse_optional_def)
  from assms show "u \<noteq> ''--''" by (auto simp: startswith_def)
qed

lemma parse_optional_names:
  "parse_optional ''--url'' = Inr (Some (Some Act_url, ''--url'', None))"
  "parse_optional ''--model'' = Inr (Some (Some Act_model, ''--model'', None))"
  by (simp_all add: parse_optional_def option_string_actions_def parser_actions_def)

lemma parse_known_args_loop:
  assumes "scan_arg_strings args = Inr ts" and "parse_loop initial_state ts = Inr (st, rest)"
  shows "parse_known_args args =
     (case consume_positionals st rest of
        (st1, stop) \<Rightarrow>
          (let required_actions =
                 filter (\<lambda>a. a \<notin> set (seen_actions st1) \<and> required a) parser_actions
           in if required_actions \<noteq> [] then Inl (Arguments_required required_actions)
              else Inr (namespace st1, extras st1 @ map arg_string (drop stop rest))))"
  using assms(2) unfolding parse_known_args_def assms(1) initial_state_def by simp

lemma parse_url_model:
  assumes "\<not> startswith u ''-''" and "\<not> startswith m ''-''"
  shows "parse_known_args [''--url'', u, ''--model'', m] =
           Inr (\<lparr>cmd_url = u, cmd_model = Some [m], cmd_help = None,
                 cmd_non_option_arguments = Some []\<rparr>, [])"
proof -
  note pu = plain_argument [OF assms(1)] and pm = plain_argument [OF assms(2)]
  have s: "scan_arg_strings [''--url'', u, ''--model'', m] =
      Inr [Opt ''--url'' (Some Act_url, ''--url'', None), Arg u,
           Opt ''--model'' (Some Act_model, ''--model'', None), Arg m]"
    using pu pm by (simp add: parse_optional_names)
  have l: "parse_loop initial_state
      [Opt ''--url'' (Some Act_url, ''--url'', None), Arg u,
       Opt ''--model'' (Some Act_model, ''--model'', None), Arg m] =
      Inr (take_action Act_model [m] (take_action Act_url [u] initial_state), [])"
    by (simp add: parse_loop_at_option consume_optional_value parse_loop_exit)
  show ?thesis
    unfolding parse_known_args_loop [OF s l]
    by (simp add: consume_positionals_def take_action_def initial_state_def
        default_namespace_def nargs_match_positional parser_actions_def)
qed

lemma resolve_url_model:
  assumes "\<not> startswith u ''-''" and "\<not> startswith m ''-''"
  shows "resolve_arguments [''--url'', u, ''--model'', m] =
           Inr \<lparr>cmd_url = u, cmd_model = Some [m], cmd_help = None,
                cmd_non_option_arguments = Some []\<rparr>"
  by (simp add: resolve_arguments_def parse_url_model [OF assms] first_dash_def)

lemma request_starts:
  "\<exists>rest out. request e url model =
     (Read_stdin # Post (url @ ''api/generate'') (payload model (stdin e)) True # rest, out)
     \<and> (\<forall>ev \<in> set rest. \<not> is_post ev)"
proof (cases "post e (url @ ''api/generate'') (payload model (stdin e))")
  case (Inl ex)
  then show ?thesis by (simp add: request_def)
next
  case (Inr r)
  show ?thesis
  proof (cases "status_code r \<ge> 400")
    case True
    with Inr show ?thesis by (simp add: request_def Let_def)
  next
    case False
    obtain evs t where c: "consume_lines (resp_lines r) (resp_failure r) = (evs, t)" by force
    then have "\<forall>ev \<in> set evs. \<not> is_post ev"
      using consume_lines_no_post [of "resp_lines r" "resp_failure r"] by simp
    with False Inr c show ?thesis by (auto simp: request_def Let_def)
  qed
qed

lemma endswith_slash: "endswith (u @ ''/'') ''/''"
  by (simp add: endswith_def)

lemma sanitize_url_ends: "endswith (sanitize_url u) ''/''"
  by (simp add: sanitize_url_def endswith_slash)

lemma sanitize_url_idem: "sanitize_url (sanitize_url u) = sanitize_url u"
  using sanitize_url_ends [of u] by (simp add: sanitize_url_def [of "sanitize_url u"])

section \<open>Facts about the payload\<close>

lemma hex_val_digit: "d < 16 \<Longrightarrow> hex_val (hex_digit d) = Some d"
  by (simp add: hex_val_def hex_digit_def)

lemma hex_digits_value:
  assumes "n < 65536"
  shows "((n div 4096 mod 16 * 16 + n div 256 mod 16) * 16 + n div 16 mod 16) * 16 + n mod 16
         = (n::nat)"
proof -
  have b: "n div 256 = n div 16 div 16"
    using div_mult2_eq [of n 16 16] by simp
  have c: "n div 4096 = n div 16 div 16 div 16"
    using div_mult2_eq [of n 256 16] b by simp
  have "n div 4096 < 16"
    using assms by (simp add: div_less_iff_less_mult)
  then have d: "n div 4096 mod 16 = n div 16 div 16 div 16"
    using c by simp
  show ?thesis
    unfolding d b by (simp only: div_mult_mod_eq)
qed

lemma decode_hex4_values:
  assumes "a < 16" and "b < 16" and "c < 16" and "d < 16"
  shows "decode_hex4 (hex_digit a) (hex_digit b) (hex_digit c) (hex_digit d)
         = Some (((a * 16 + b) * 16 + c) * 16 + d)"
  using assms by (simp add: decode_hex4_def hex_val_digit)

lemma decode_hex4_digits:
  assumes "n < 65536"
  shows "decode_hex4 (hex_digit (n div 4096 mod 16)) (hex_digit (n div 256 mod 16))
           (hex_digit (n div 16 mod 16)) (hex_digit (n mod 16)) = Some n"
proof -
  have "decode_hex4 (hex_digit (n div 4096 mod 16)) (hex_digit (n div 256 mod 16))
           (hex_digit (n div 16 mod 16)) (hex_digit (n mod 16))
        = Some (((n div 4096 mod 16 * 16 + n div 256 mod 16) * 16 + n div 16 mod 16) * 16
                + n mod 16)"
    by (rule decode_hex4_values) simp_all
  then show ?thesis
    by (simp only: hex_digits_value [OF assms])
qed

lemma no_low_escape_case:
  assumes "no_low_escape x"
  shows "(case x of
            bs # u # e # f # g # h # s3 \<Rightarrow>
              if bs = 92 \<and> u = 117 then
                (case decode_hex4 e f g h of
                   None \<Rightarrow> None
                 | Some uni2 \<Rightarrow>
                     if 0xDC00 \<le> uni2 \<and> uni2 \<le> 0xDFFF then Some (a uni2 s3) else Some b)
              else Some b
          | _ \<Rightarrow> Some b) = Some b"
proof (cases x)
  case Nil then show ?thesis by simp
next
  case c1: (Cons bs x1)
  show ?thesis
  proof (cases x1)
    case Nil then show ?thesis using c1 by simp
  next
    case c2: (Cons u x2)
    show ?thesis
    proof (cases x2)
      case Nil then show ?thesis using c1 c2 by simp
    next
      case c3: (Cons e x3)
      show ?thesis
      proof (cases x3)
        case Nil then show ?thesis using c1 c2 c3 by simp
      next
        case c4: (Cons f x4)
        show ?thesis
        proof (cases x4)
          case Nil then show ?thesis using c1 c2 c3 c4 by simp
        next
          case c5: (Cons g x5)
          show ?thesis
          proof (cases x5)
            case Nil then show ?thesis using c1 c2 c3 c4 c5 by simp
          next
            case c6: (Cons h s3)
            have x: "x = bs # u # e # f # g # h # s3"
              using c1 c2 c3 c4 c5 c6 by simp
            show ?thesis
              using assms unfolding x no_low_escape_def low_surrogate_def
              by (auto split: option.splits)
          qed
        qed
      qed
    qed
  qed
qed

lemma scan_escape_u:
  "decode_hex4 h1 h2 h3 h4 = Some uni \<Longrightarrow>
   scan_escape (117 # h1 # h2 # h3 # h4 # s2) =
     (if 0xD800 \<le> uni \<and> uni \<le> 0xDBFF then
        (case s2 of
           bs # u # e # f # g # h # s3 \<Rightarrow>
             if bs = 92 \<and> u = 117 then
               (case decode_hex4 e f g h of
                  None \<Rightarrow> None
                | Some uni2 \<Rightarrow>
                    if 0xDC00 \<le> uni2 \<and> uni2 \<le> 0xDFFF then
                      Some (0x10000 + ((uni - 0xD800) * 1024 + (uni2 - 0xDC00)), s3)
                    else Some (uni, s2))
             else Some (uni, s2)
         | _ \<Rightarrow> Some (uni, s2))
      else Some (uni, s2))"
  by (simp add: scan_escape_def)

lemma tl_hex4:
  "tl (hex4 n) @ x = 117 # hex_digit (n div 4096 mod 16) # hex_digit (n div 256 mod 16)
       # hex_digit (n div 16 mod 16) # hex_digit (n mod 16) # x"
  by (simp add: hex4_def)

lemma scan_escape_hex4:
  assumes "n < 65536" and "high_surrogate n \<longrightarrow> no_low_escape x"
  shows "scan_escape (tl (hex4 n) @ x) = Some (n, x)"
proof (cases "high_surrogate n")
  case False
  then have "(0xD800 \<le> n \<and> n \<le> 0xDBFF) = False" by (simp add: high_surrogate_def)
  then show ?thesis
    unfolding tl_hex4 scan_escape_u [OF decode_hex4_digits [OF assms(1)]]
    by (simp only: if_False)
next
  case True
  with assms(2) have n: "no_low_escape x" by simp
  from True have h: "(0xD800 \<le> n \<and> n \<le> 0xDBFF) = True" by (simp add: high_surrogate_def)
  show ?thesis
    unfolding tl_hex4 scan_escape_u [OF decode_hex4_digits [OF assms(1)]]
    by (simp only: h if_True no_low_escape_case [OF n])
qed

lemma scan_escape_pair:
  assumes "0x10000 \<le> c" and "c < 0x110000"
  shows "scan_escape (tl (hex4 (0xD800 + ((c - 0x10000) div 1024) mod 1024)
                          @ hex4 (0xDC00 + (c - 0x10000) mod 1024)) @ x) = Some (c, x)"
proof -
  define k where "k = c - 0x10000"
  define hi where "hi = 0xD800 + (k div 1024) mod 1024"
  define lo where "lo = 0xDC00 + k mod 1024"
  have k: "k < 0x100000" and c: "c = 0x10000 + k"
    using assms by (simp_all add: k_def)
  have "k div 1024 < 1024"
    using k by (simp add: div_less_iff_less_mult)
  then have hi_eq: "hi = 0xD800 + k div 1024"
    by (simp add: hi_def)
  have hi: "hi < 65536" and hi_range: "(0xD800 \<le> hi \<and> hi \<le> 0xDBFF) = True"
    using \<open>k div 1024 < 1024\<close> by (simp_all add: hi_eq)
  have "k mod 1024 < 1024" by simp
  then have lo: "lo < 65536" and "0xDC00 \<le> lo \<and> lo \<le> 0xDFFF"
    unfolding lo_def by linarith+
  then have lo_range: "(0xDC00 \<le> lo \<and> lo \<le> 0xDFFF) = True"
    by simp
  have joined: "0x10000 + ((hi - 0xD800) * 1024 + (lo - 0xDC00)) = c"
    by (simp add: hi_eq lo_def c)
  have shape: "tl (hex4 hi @ hex4 lo) @ x
      = 117 # hex_digit (hi div 4096 mod 16) # hex_digit (hi div 256 mod 16)
        # hex_digit (hi div 16 mod 16) # hex_digit (hi mod 16)
        # 92 # 117 # hex_digit (lo div 4096 mod 16) # hex_digit (lo div 256 mod 16)
        # hex_digit (lo div 16 mod 16) # hex_digit (lo mod 16) # x"
    by (simp add: hex4_def)
  have "scan_escape (tl (hex4 hi @ hex4 lo) @ x) = Some (c, x)"
    unfolding shape scan_escape_u [OF decode_hex4_digits [OF hi]]
    by (simp only: hi_range if_True list.case decode_hex4_digits [OF lo] option.case
        lo_range joined simp_thms)
  then show ?thesis
    by (simp only: hi_def lo_def k_def)
qed

lemma scanstring_backslash:
  "scan_escape s = Some (ch, r) \<Longrightarrow> scanstring (92 # s) = append_char ch (scanstring r)"
  by simp

lemma hex4_tl: "hex4 n @ x = 92 # (tl (hex4 n) @ x)"
  by (simp add: hex4_def)

lemma scanstring_escape_char:
  assumes "c < 0x110000" and "high_surrogate c \<longrightarrow> no_low_escape x"
  shows "scanstring (escape_char c @ x) = append_char c (scanstring x)"
proof (cases "c = 92 \<or> c = 34 \<or> c = 8 \<or> c = 12 \<or> c = 10 \<or> c = 13 \<or> c = 9")
  case True
  then show ?thesis
    by (auto simp: escape_char_def scan_escape_def backslash_def)
next
  case special: False
  show ?thesis
  proof (cases "32 \<le> c \<and> c \<le> 126")
    case True
    then show ?thesis
      using special by (simp add: escape_char_def)
  next
    case plain: False
    show ?thesis
    proof (cases "c < 0x10000")
      case True
      then have e: "escape_char c = hex4 c"
        using special plain by (auto simp: escape_char_def)
      show ?thesis
        unfolding e hex4_tl
        by (rule scanstring_backslash) (rule scan_escape_hex4 [OF True assms(2)])
    next
      case False
      then have e: "escape_char c = hex4 (0xD800 + ((c - 0x10000) div 1024) mod 1024)
                                    @ hex4 (0xDC00 + (c - 0x10000) mod 1024)"
        using special plain by (auto simp: escape_char_def)
      have t: "(hex4 a @ hex4 b) @ x = 92 # (tl (hex4 a @ hex4 b) @ x)" for a b
        by (simp add: hex4_def)
      show ?thesis
        unfolding e t
        by (rule scanstring_backslash) (rule scan_escape_pair, use False assms(1) in simp_all)
    qed
  qed
qed

lemma no_low_escape_head:
  "a \<noteq> 92 \<Longrightarrow> no_low_escape (a # y)"
  "b \<noteq> 117 \<Longrightarrow> no_low_escape (a # b # y)"
  by (simp_all add: no_low_escape_def split: list.splits)

lemma no_low_escape_hex4:
  assumes "n < 65536" and "\<not> low_surrogate n"
  shows "no_low_escape (hex4 n @ y)"
  using assms(2) decode_hex4_digits [OF assms(1)]
  by (simp add: no_low_escape_def hex4_def)

lemma no_low_escape_escape_char:
  assumes "c < 0x110000" and "\<not> low_surrogate c"
  shows "no_low_escape (escape_char c @ y)"
proof (cases "c = 92 \<or> c = 34 \<or> c = 8 \<or> c = 12 \<or> c = 10 \<or> c = 13 \<or> c = 9")
  case True
  then show ?thesis
    by (auto simp: escape_char_def no_low_escape_head)
next
  case special: False
  show ?thesis
  proof (cases "32 \<le> c \<and> c \<le> 126")
    case True
    then show ?thesis
      using special by (simp add: escape_char_def no_low_escape_head)
  next
    case plain: False
    show ?thesis
    proof (cases "c < 0x10000")
      case True
      then have e: "escape_char c = hex4 c"
        using special plain by (auto simp: escape_char_def)
      show ?thesis
        unfolding e by (rule no_low_escape_hex4 [OF True assms(2)])
    next
      case False
      then have e: "escape_char c = hex4 (0xD800 + ((c - 0x10000) div 1024) mod 1024)
                                    @ hex4 (0xDC00 + (c - 0x10000) mod 1024)"
        using special plain by (auto simp: escape_char_def)
      have "(c - 0x10000) div 1024 mod 1024 < 1024"
        by simp
      then have "0xD800 + ((c - 0x10000) div 1024) mod 1024 < 65536"
        and "\<not> low_surrogate (0xD800 + ((c - 0x10000) div 1024) mod 1024)"
        unfolding low_surrogate_def by linarith+
      then show ?thesis
        unfolding e append_assoc by (rule no_low_escape_hex4)
    qed
  qed
qed

lemma scanstring_escaped:
  "well_formed_text s \<Longrightarrow> scanstring (concat (map escape_char s) @ 34 # rest) = Some (s, rest)"
proof (induction s)
  case Nil
  then show ?case by simp
next
  case (Cons c s)
  from Cons.prems have c: "c < 0x110000" and s: "well_formed_text s"
    by simp_all
  have n: "high_surrogate c \<longrightarrow> no_low_escape (concat (map escape_char s) @ 34 # rest)"
  proof (cases s)
    case Nil
    then show ?thesis by (simp add: no_low_escape_head)
  next
    case (Cons d s')
    with Cons.prems have "high_surrogate c \<longrightarrow> \<not> low_surrogate d" and "d < 0x110000"
      by auto
    then show ?thesis
      unfolding Cons by (auto intro: no_low_escape_escape_char)
  qed
  have "scanstring (escape_char c @ concat (map escape_char s) @ 34 # rest)
        = append_char c (scanstring (concat (map escape_char s) @ 34 # rest))"
    by (rule scanstring_escape_char [OF c n])
  then show ?case
    using Cons.IH [OF s] by (simp add: append_char_def)
qed

lemma tokens_encoded:
  assumes "well_formed_text s"
  shows "tokens (encode_basestring_ascii s @ rest)
         = map_option (\<lambda>ts. T_value (JStr s) # ts) (tokens rest)"
  using scanstring_escaped [OF assms, of rest]
  by (simp add: encode_basestring_ascii_def whitespace_def punctuation_def scan_value_def)

lemma json_loads_dumps:
  assumes "well_formed_text k1" and "well_formed_text v1"
    and "well_formed_text k2" and "well_formed_text v2"
  shows "json_loads (json_dumps [(k1, v1), (k2, v2)]) = Inr (JObj [(k1, JStr v1), (k2, JStr v2)])"
proof -
  have shape: "json_dumps [(k1, v1), (k2, v2)]
      = 123 # (encode_basestring_ascii k1 @ 58 # 32 # (encode_basestring_ascii v1
          @ 44 # 32 # (encode_basestring_ascii k2 @ 58 # 32 # (encode_basestring_ascii v2
          @ [125]))))"
    by (simp add: json_dumps_def)
  have t: "tokens (json_dumps [(k1, v1), (k2, v2)])
      = Some [T_lbrace, T_value (JStr k1), T_colon, T_value (JStr v1), T_comma,
              T_value (JStr k2), T_colon, T_value (JStr v2), T_rbrace]"
    unfolding shape
    by (simp add: tokens_encoded assms whitespace_def punctuation_def)
  show ?thesis
    unfolding json_loads_def t
    by (simp add: begin_value_def key_token_def complete_def close_object_def)
qed

lemma well_formed_cps: "well_formed_text (cps s)"
proof (induction s)
  case Nil
  then show ?case by (simp add: cps_def)
next
  case (Cons c s)
  have "(of_char c :: nat) < 256"
    using of_char_mod_256 [of c, where ?'a = nat] mod_less_divisor [of 256 "of_char c :: nat"]
    by simp
  then have "(of_char c :: nat) < 0x110000" and "\<not> high_surrogate (of_char c)"
    unfolding high_surrogate_def by linarith+
  then show ?case
    using Cons.IH by (simp add: cps_def)
qed

lemma escape_char_ascii: "\<forall>c \<in> set (escape_char n). c < 128"
proof -
  have "hex_digit (d mod 16) < 128" for d
    using mod_less_divisor [of 16 d] unfolding hex_digit_def by (simp split: if_splits) linarith
  then have "\<forall>c \<in> set (hex4 m). c < 128" for m
    by (simp add: hex4_def)
  then show ?thesis
    by (auto simp: escape_char_def)
qed

lemma payload_ascii: "\<forall>c \<in> set (payload model s). c < 128"
  using escape_char_ascii
  by (auto simp: payload_def json_dumps_def encode_basestring_ascii_def)

lemma payload_loads:
  assumes "well_formed_text s"
  shows "json_loads (payload model s)
         = Inr (JObj [(cps ''model'', JStr (cps model)), (cps ''prompt'', JStr s)])"
  unfolding payload_def
  by (rule json_loads_dumps) (simp_all add: well_formed_cps assms)

lemma parse_model:
  assumes "\<not> startswith m ''-''"
  shows "parse_known_args [''--model'', m] =
           Inr (\<lparr>cmd_url = ''http://localhost:11434'', cmd_model = Some [m], cmd_help = None,
                 cmd_non_option_arguments = Some []\<rparr>, [])"
proof -
  note pm = plain_argument [OF assms]
  have s: "scan_arg_strings [''--model'', m] =
      Inr [Opt ''--model'' (Some Act_model, ''--model'', None), Arg m]"
    using pm by (simp add: parse_optional_names)
  have l: "parse_loop initial_state
      [Opt ''--model'' (Some Act_model, ''--model'', None), Arg m] =
      Inr (take_action Act_model [m] initial_state, [])"
    by (simp add: parse_loop_at_option consume_optional_value parse_loop_exit)
  show ?thesis
    unfolding parse_known_args_loop [OF s l]
    by (simp add: consume_positionals_def take_action_def initial_state_def
        default_namespace_def nargs_match_positional parser_actions_def)
qed

lemma resolve_model:
  assumes "\<not> startswith m ''-''"
  shows "resolve_arguments [''--model'', m] =
           Inr \<lparr>cmd_url = ''http://localhost:11434'', cmd_model = Some [m], cmd_help = None,
                cmd_non_option_arguments = Some []\<rparr>"
  by (simp add: resolve_arguments_def parse_model [OF assms] first_dash_def)

section \<open>Facts about abbreviations\<close>











section \<open>The help option\<close>

text \<open>
  C4, as the code has it.  The claim as stated fails: \<^verbatim>\<open>argparse\<close> parses the whole
  argument list before \<open>main\<close> looks at the help flag, so a usage error of the parser
  (here \<^verbatim>\<open>--model\<close> without its value) ends the program with status 2 although
  \<^verbatim>\<open>--help\<close> is present.
\<close>

theorem help_not_always_counterexample:
  "main \<lparr>argv = [''--help'', ''--model''], stdin = [], post = unreachable\<rparr> =
     ([Stderr (cps (''usage: spit --help'' @ newline)),
       Stderr (cps (''spit: error: argument --model: expected 1 argument'' @ newline))],
      Exit 2)"
  by code_simp

text \<open>
  C4 (amended): for every argument list that \<^verbatim>\<open>argparse\<close> parses without a usage
  error and that has one of the spellings \<^verbatim>\<open>--help\<close>, \<^verbatim>\<open>--hel\<close>, \<^verbatim>\<open>--he\<close>,
  \<^verbatim>\<open>--h\<close> before any \<^verbatim>\<open>--\<close>, whatever the other arguments are, the program
  prints the usage text on standard output and exits with status 0; it does nothing
  else, so there is no network activity.
\<close>

theorem help_option_wins:
  assumes "parse_known_args (argv e) = Inr (ns, un)"
    and "\<exists>t \<in> set (option_part (argv e)). help_spelling t"
  shows "main e = ([Stdout (cps (usage_text @ newline))], Exit 0)"
proof -
  from assms(2) have "\<exists>t \<in> set (option_part (argv e)). option_action t = Some Act_help"
    using help_spelling_action by blast
  then have "cmd_help ns \<noteq> None" using pka_help [OF assms(1)] by simp
  then show ?thesis by (simp add: main_def resolve_arguments_def assms(1))
qed

theorem help_option_wins_witness:
  "main \<lparr>argv = [''extra'', ''--foo'', ''--he'', ''--url'', ''x''], stdin = [],
         post = unreachable\<rparr> =
     ([Stdout (cps (usage_text @ newline))], Exit 0)"
proof -
  have p: "parse_known_args [''extra'', ''--foo'', ''--he'', ''--url'', ''x''] =
      Inr (\<lparr>cmd_url = ''x'', cmd_model = None, cmd_help = Some True,
            cmd_non_option_arguments = Some [''extra'']\<rparr>, [''--foo''])"
    by code_simp
  have h: "\<exists>t \<in> set (option_part [''extra'', ''--foo'', ''--he'', ''--url'', ''x'']).
             help_spelling t"
    by (simp add: option_part_def help_spelling_def)
  show ?thesis
    using help_option_wins
      [of "\<lparr>argv = [''extra'', ''--foo'', ''--he'', ''--url'', ''x''], stdin = [],
            post = unreachable\<rparr>"] p h
    by simp
qed

section \<open>The status of the response\<close>

text \<open>
  C3: in a run whose arguments are accepted and whose POST returns a response: a status
  code other than 200 is reported on standard error; with a status code of 400 or more
  the text of the body is reported on standard error too and the program exits with
  status 1, having taken no line from the body and written nothing on standard output;
  with a status code between 200 and 400 the run goes on as the run with status 200
  does, the report of the status apart.
\<close>

theorem status_handling:
  assumes "resolve_arguments (argv e) = Inr cmdargs"
    and "cmd_model cmdargs = Some [model]"
    and "post e (sanitize_url (cmd_url cmdargs) @ ''api/generate'') (payload model (stdin e))
           = Inr r"
  shows "(status_code r \<noteq> 200 \<longrightarrow>
           Stderr (cps (''Status: '' @ str_int (status_code r) @ newline)) \<in> set (fst (main e)))
       \<and> (status_code r \<ge> 400 \<longrightarrow>
           main e =
             ([Read_stdin,
               Post (sanitize_url (cmd_url cmdargs) @ ''api/generate'')
                 (payload model (stdin e)) True,
               Stderr (cps (''Status: '' @ str_int (status_code r) @ newline)),
               Read_text,
               Stderr (cps ''Body: '' @ resp_text r @ cps newline)],
              Exit 1))
       \<and> (200 < status_code r \<and> status_code r < 400 \<longrightarrow>
           main e =
             ([Read_stdin,
               Post (sanitize_url (cmd_url cmdargs) @ ''api/generate'')
                 (payload model (stdin e)) True,
               Stderr (cps (''Status: '' @ str_int (status_code r) @ newline))]
              @ fst (consume_lines (resp_lines r) (resp_failure r)),
              snd (consume_lines (resp_lines r) (resp_failure r))))
       \<and> (status_code r = 200 \<longrightarrow>
           main e =
             ([Read_stdin,
               Post (sanitize_url (cmd_url cmdargs) @ ''api/generate'')
                 (payload model (stdin e)) True]
              @ fst (consume_lines (resp_lines r) (resp_failure r)),
              snd (consume_lines (resp_lines r) (resp_failure r))))"
  unfolding main_request [OF assms(1,2)] request_def
  by (simp add: assms(3) Let_def split: prod.splits)

theorem status_handling_witness:
  "main \<lparr>argv = [''--model'', ''foo''], stdin = cps ''hello'',
         post = answering \<lparr>status_code = 404, resp_text = cps ''not found'',
                            resp_lines = [''not found''], resp_failure = None\<rparr>\<rparr> =
     ([Read_stdin,
       Post ''http://localhost:11434/api/generate'' (payload ''foo'' (cps ''hello'')) True,
       Stderr (cps (''Status: 404'' @ newline)),
       Read_text,
       Stderr (cps ''Body: '' @ cps ''not found'' @ cps newline)],
      Exit 1)
   \<and> main \<lparr>argv = [''--model'', ''foo''], stdin = cps ''hello'',
         post = answering \<lparr>status_code = 302, resp_text = [],
                            resp_lines = [], resp_failure = None\<rparr>\<rparr> =
     ([Read_stdin,
       Post ''http://localhost:11434/api/generate'' (payload ''foo'' (cps ''hello'')) True,
       Stderr (cps (''Status: 302'' @ newline))],
      Exit 0)"
proof -
  let ?c = "\<lparr>cmd_url = ''http://localhost:11434'', cmd_model = Some [''foo''],
             cmd_help = None, cmd_non_option_arguments = Some []\<rparr>"
  let ?r1 = "\<lparr>status_code = 404, resp_text = cps ''not found'',
              resp_lines = [''not found''], resp_failure = None\<rparr>"
  let ?r2 = "\<lparr>status_code = 302, resp_text = [], resp_lines = [], resp_failure = None\<rparr>"
  let ?e1 = "\<lparr>argv = [''--model'', ''foo''], stdin = cps ''hello'', post = answering ?r1\<rparr>"
  let ?e2 = "\<lparr>argv = [''--model'', ''foo''], stdin = cps ''hello'', post = answering ?r2\<rparr>"
  have r: "resolve_arguments [''--model'', ''foo''] = Inr ?c" by code_simp
  have u: "sanitize_url ''http://localhost:11434'' @ ''api/generate''
             = ''http://localhost:11434/api/generate''" by code_simp
  have s: "str_int 404 = ''404''" "str_int 302 = ''302''" by code_simp+
  have h1: "resolve_arguments (argv ?e1) = Inr ?c" "resolve_arguments (argv ?e2) = Inr ?c"
    using r by simp_all
  have h2: "cmd_model ?c = Some [''foo'']" by simp
  have h3: "post ?e1 (sanitize_url (cmd_url ?c) @ ''api/generate'') (payload ''foo'' (stdin ?e1))
              = Inr ?r1"
    "post ?e2 (sanitize_url (cmd_url ?c) @ ''api/generate'') (payload ''foo'' (stdin ?e2))
              = Inr ?r2"
    by (simp_all add: answering_def)
  have a: "main ?e1 =
     ([Read_stdin,
       Post ''http://localhost:11434/api/generate'' (payload ''foo'' (cps ''hello'')) True,
       Stderr (cps (''Status: 404'' @ newline)),
       Read_text,
       Stderr (cps ''Body: '' @ cps ''not found'' @ cps newline)],
      Exit 1)"
    using status_handling [OF h1(1) h2 h3(1)] by (simp add: u s)
  have b: "main ?e2 =
     ([Read_stdin,
       Post ''http://localhost:11434/api/generate'' (payload ''foo'' (cps ''hello'')) True,
       Stderr (cps (''Status: 302'' @ newline))],
      Exit 0)"
    using status_handling [OF h1(2) h2 h3(2)] by (simp add: u s)
  from a b show ?thesis by (rule conjI)
qed

section \<open>The stream of fragments\<close>



section \<open>Lines that are not as expected\<close>




section \<open>Errors in the argument list\<close>

text \<open>
  C7, as the code has it.  The claim as stated fails: \<^verbatim>\<open>argparse\<close> takes a lone
  \<^verbatim>\<open>-\<close> (as well as a negative number, a string with a space, and everything after
  \<^verbatim>\<open>--\<close>) for a positional argument, so such a token, which begins with \<^verbatim>\<open>-\<close> and
  is none of the options, is counted among the arguments that are too many.
\<close>

theorem lone_dash_counterexample:
  "main \<lparr>argv = [''--model'', ''foo'', ''-''], stdin = [], post = unreachable\<rparr> =
     ([Stderr (cps too_many_arguments)], Exit 1)"
  by code_simp

text \<open>
  C7 (amended): for every argument list that \<^verbatim>\<open>argparse\<close> parses without a usage
  error, that has no help option, and that has before any \<^verbatim>\<open>--\<close> a token which
  \<^verbatim>\<open>argparse\<close> takes for an option that the parser does not have, the program writes
  on standard error the message that names an unrecognized token of the argument list
  (the first leftover string that begins with \<^verbatim>\<open>-\<close>), followed by the hint to try
  \<^verbatim>\<open>--help\<close>, and exits with status 1; it does nothing else, so there is no network
  call.
\<close>

theorem unknown_option_reported:
  assumes "parse_known_args (argv e) = Inr (ns, un)"
    and "\<not> (\<exists>t \<in> set (option_part (argv e)). option_action t = Some Act_help)"
    and "\<exists>t \<in> set (option_part (argv e)). unknown_option t"
  shows "\<exists>u. first_dash un = Some u \<and> u \<in> set (argv e) \<and> unrecognized_token u
           \<and> main e = ([Stderr (cps (unrecognized_option u))], Exit 1)"
proof -
  from assms(3) obtain t where t: "t \<in> set (option_part (argv e))" "unknown_option t" by blast
  then have "t \<in> set un" using pka_unhandled(3) [OF assms(1)] by blast
  with t(2) obtain u where u: "first_dash un = Some u"
    using first_dash_exists unknown_option_dash by blast
  have h: "cmd_help ns = None" using pka_help [OF assms(1)] assms(2) by simp
  have "main e = ([Stderr (cps (unrecognized_option u))], Exit 1)"
    by (simp add: main_def resolve_unrecognized [OF assms(1) h u])
  with u first_dash_unrecognized [OF assms(1) u] show ?thesis by blast
qed

theorem unknown_option_reported_witness:
  "main \<lparr>argv = [''extra'', ''--url'', ''u'', ''--foo'', ''--model'', ''m''], stdin = [],
         post = unreachable\<rparr> =
     ([Stderr (cps (unrecognized_option ''--foo''))], Exit 1)"
proof -
  let ?a = "[''extra'', ''--url'', ''u'', ''--foo'', ''--model'', ''m'']"
  let ?e = "\<lparr>argv = ?a, stdin = [], post = unreachable\<rparr>"
  have p: "parse_known_args (argv ?e) =
      Inr (\<lparr>cmd_url = ''u'', cmd_model = Some [''m''], cmd_help = None,
            cmd_non_option_arguments = Some [''extra'']\<rparr>, [''--foo''])"
    by code_simp
  have h: "\<not> (\<exists>t \<in> set (option_part (argv ?e)). option_action t = Some Act_help)"
    by code_simp
  have k: "\<exists>t \<in> set (option_part (argv ?e)). unknown_option t"
    by code_simp
  have f: "first_dash [''--foo''] = Some ''--foo''" by code_simp
  from unknown_option_reported [OF p h k] f show ?thesis by simp
qed

text \<open>
  C8, as the code has it.  The claim as stated fails: \<^verbatim>\<open>--url\<close> without its value
  is a usage error of \<^verbatim>\<open>argparse\<close>, which ends the program with status 2 before
  \<open>main\<close> looks for the model.
\<close>

theorem url_without_value_counterexample:
  "main \<lparr>argv = [''--url''], stdin = [], post = unreachable\<rparr> =
     ([Stderr (cps (''usage: spit --help'' @ newline)),
       Stderr (cps (''spit: error: argument --url: expected one argument'' @ newline))],
      Exit 2)"
  by code_simp

text \<open>
  C8 (amended): for every argument list that \<^verbatim>\<open>argparse\<close> parses without a usage
  error, in which no token stands for the help option, every token that begins with
  \<^verbatim>\<open>-\<close> stands for a declared option, and no token stands for \<^verbatim>\<open>--model\<close>, the
  program writes \<^verbatim>\<open>spit: missing --model option\<close> on standard error and exits with
  status 1; it does nothing else, so there is no network call.
\<close>

theorem missing_model_reported:
  assumes "parse_known_args (argv e) = Inr (ns, un)"
    and "\<forall>t \<in> set (argv e). option_action t \<noteq> Some Act_help"
    and "\<forall>t \<in> set (argv e). \<not> unrecognized_token t"
    and "\<forall>t \<in> set (argv e). option_action t \<noteq> Some Act_model"
  shows "main e = ([Stderr (cps missing_model)], Exit 1)"
proof -
  note o = no_unrecognized_no_dashes [OF assms(3)]
  have h: "cmd_help ns = None" using pka_help [OF assms(1)] assms(2) unfolding o by auto
  have m: "cmd_model ns = None" using pka_model(1) [OF assms(1)] assms(4) unfolding o by auto
  have f: "first_dash un = None"
  proof (cases "first_dash un")
    case (Some u)
    from first_dash_unrecognized [OF assms(1) Some] assms(3) show ?thesis by blast
  qed simp
  from pka_collected [OF assms(1)] obtain c where "cmd_non_option_arguments ns = Some c"
    by blast
  then show ?thesis by (simp add: main_def resolve_arguments_def assms(1) h m f)
qed

theorem missing_model_reported_witness:
  "main \<lparr>argv = [''--url'', ''http://h:1'', ''extra''], stdin = [], post = unreachable\<rparr> =
     ([Stderr (cps (''spit: missing --model option'' @ newline))], Exit 1)"
proof -
  let ?e = "\<lparr>argv = [''--url'', ''http://h:1'', ''extra''], stdin = [], post = unreachable\<rparr>"
  have p: "parse_known_args (argv ?e) =
      Inr (\<lparr>cmd_url = ''http://h:1'', cmd_model = None, cmd_help = None,
            cmd_non_option_arguments = Some [''extra'']\<rparr>, [])"
    by code_simp
  have h: "\<forall>t \<in> set (argv ?e). option_action t \<noteq> Some Act_help" by code_simp
  have k: "\<forall>t \<in> set (argv ?e). \<not> unrecognized_token t" by code_simp
  have l: "\<forall>t \<in> set (argv ?e). option_action t \<noteq> Some Act_model" by code_simp
  from missing_model_reported [OF p h k l] show ?thesis by (simp add: missing_model_def)
qed

text \<open>
  C9, as the code has it.  The claim as stated fails for the same reason as C8: a usage
  error of \<^verbatim>\<open>argparse\<close> (here \<^verbatim>\<open>--url\<close> without its value) comes first, with a
  positional argument present or not.
\<close>

theorem positional_with_usage_error_counterexample:
  "main \<lparr>argv = [''--model'', ''foo'', ''extra'', ''--url''], stdin = [],
         post = unreachable\<rparr> =
     ([Stderr (cps (''usage: spit --help'' @ newline)),
       Stderr (cps (''spit: error: argument --url: expected one argument'' @ newline))],
      Exit 2)"
  by code_simp

text \<open>
  C9 (amended): for every argument list that \<^verbatim>\<open>argparse\<close> parses without a usage
  error, in which no token stands for the help option, every token that begins with
  \<^verbatim>\<open>-\<close> stands for a declared option, some token stands for \<^verbatim>\<open>--model\<close>, and at
  least one positional argument remains (collected by the parser or left unhandled), the
  program writes \<^verbatim>\<open>spit: too many arguments\<close> and the hint to try \<^verbatim>\<open>--help\<close> on
  standard error and exits with status 1; it does nothing else, so there is no network
  activity.
\<close>

theorem too_many_arguments_reported:
  assumes "parse_known_args (argv e) = Inr (ns, un)"
    and "\<forall>t \<in> set (argv e). option_action t \<noteq> Some Act_help"
    and "\<forall>t \<in> set (argv e). \<not> unrecognized_token t"
    and "\<exists>t \<in> set (argv e). option_action t = Some Act_model"
    and "cmd_non_option_arguments ns = Some collected"
    and "collected @ un \<noteq> []"
  shows "main e = ([Stderr (cps too_many_arguments)], Exit 1)"
proof -
  note o = no_unrecognized_no_dashes [OF assms(3)]
  have h: "cmd_help ns = None" using pka_help [OF assms(1)] assms(2) unfolding o by auto
  have m: "cmd_model ns \<noteq> None" using pka_model(1) [OF assms(1)] assms(4) unfolding o by auto
  have f: "first_dash un = None"
  proof (cases "first_dash un")
    case (Some u)
    from first_dash_unrecognized [OF assms(1) Some] assms(3) show ?thesis by blast
  qed simp
  from assms(6) have "collected \<noteq> [] \<or> un \<noteq> []" by simp
  then show ?thesis
    using m by (auto simp: main_def resolve_arguments_def assms(1,5) h f)
qed

theorem too_many_arguments_reported_witness:
  "main \<lparr>argv = [''--model'', ''foo'', ''extra''], stdin = [], post = unreachable\<rparr> =
     ([Stderr (cps (''spit: too many arguments'' @ newline @ try_help))], Exit 1)"
proof -
  let ?e = "\<lparr>argv = [''--model'', ''foo'', ''extra''], stdin = [], post = unreachable\<rparr>"
  have p: "parse_known_args (argv ?e) =
      Inr (\<lparr>cmd_url = ''http://localhost:11434'', cmd_model = Some [''foo''], cmd_help = None,
            cmd_non_option_arguments = Some [''extra'']\<rparr>, [])"
    by code_simp
  have h: "\<forall>t \<in> set (argv ?e). option_action t \<noteq> Some Act_help" by code_simp
  have k: "\<forall>t \<in> set (argv ?e). \<not> unrecognized_token t" by code_simp
  have l: "\<exists>t \<in> set (argv ?e). option_action t = Some Act_model" by code_simp
  from too_many_arguments_reported [OF p h k l, of "[''extra'']"]
  show ?thesis by (simp add: too_many_arguments_def)
qed

section \<open>The URL\<close>

text \<open>
  C6: the URL that \<open>main\<close> uses ends with \<^verbatim>\<open>/\<close>: it is the value of \<^verbatim>\<open>--url\<close>
  when that ends with \<^verbatim>\<open>/\<close>, and the value with \<^verbatim>\<open>/\<close> appended otherwise.  With a
  URL and a model name that do not begin with \<^verbatim>\<open>-\<close>, the run with \<^verbatim>\<open>--url u\<close> posts
  to the normalized URL followed by \<^verbatim>\<open>api/generate\<close>, and it is the same run as with
  the normalized URL given in the first place; so \<^verbatim>\<open>--url http://h:1\<close> and
  \<^verbatim>\<open>--url http://h:1/\<close> both post to \<^verbatim>\<open>http://h:1/api/generate\<close>.
\<close>

theorem url_normalization:
  assumes "\<not> startswith u ''-''" and "\<not> startswith model ''-''"
  shows "endswith (sanitize_url u) ''/''
       \<and> (endswith u ''/'' \<longrightarrow> sanitize_url u = u)
       \<and> (\<not> endswith u ''/'' \<longrightarrow> sanitize_url u = u @ ''/'')
       \<and> (\<exists>rest out.
             main \<lparr>argv = [''--url'', u, ''--model'', model], stdin = s, post = p\<rparr> =
               (Read_stdin
                # Post (sanitize_url u @ ''api/generate'') (payload model s) True # rest, out))
       \<and> main \<lparr>argv = [''--url'', u, ''--model'', model], stdin = s, post = p\<rparr> =
           main \<lparr>argv = [''--url'', sanitize_url u, ''--model'', model], stdin = s, post = p\<rparr>"
proof -
  have su: "\<not> startswith (sanitize_url u) ''-''"
    using assms(1) by (cases u) (auto simp: sanitize_url_def startswith_def)
  have m: "main \<lparr>argv = [''--url'', v, ''--model'', model], stdin = s, post = p\<rparr> =
      request \<lparr>argv = [''--url'', v, ''--model'', model], stdin = s, post = p\<rparr>
        (sanitize_url v) model" if "\<not> startswith v ''-''" for v
    by (simp add: main_def resolve_url_model [OF that assms(2)])
  have r: "request \<lparr>argv = a, stdin = s, post = p\<rparr> url model =
           request \<lparr>argv = b, stdin = s, post = p\<rparr> url model" for a b url
    by (simp add: request_def)
  have 4: "\<exists>rest out.
             main \<lparr>argv = [''--url'', u, ''--model'', model], stdin = s, post = p\<rparr> =
               (Read_stdin
                # Post (sanitize_url u @ ''api/generate'') (payload model s) True # rest, out)"
    unfolding m [OF assms(1)]
    using request_starts
      [of "\<lparr>argv = [''--url'', u, ''--model'', model], stdin = s, post = p\<rparr>"
          "sanitize_url u" model]
    by auto
  have 5: "main \<lparr>argv = [''--url'', u, ''--model'', model], stdin = s, post = p\<rparr> =
           main \<lparr>argv = [''--url'', sanitize_url u, ''--model'', model], stdin = s, post = p\<rparr>"
    unfolding m [OF assms(1)] m [OF su] sanitize_url_idem by (rule r)
  show ?thesis using sanitize_url_ends 4 5 by (simp add: sanitize_url_def)
qed

theorem url_normalization_witness:
  "main \<lparr>argv = [''--url'', ''http://h:1'', ''--model'', ''foo''], stdin = cps ''hello'',
         post = unreachable\<rparr> =
     ([Read_stdin, Post ''http://h:1/api/generate'' (payload ''foo'' (cps ''hello'')) True],
      Uncaught RequestException)
   \<and> main \<lparr>argv = [''--url'', ''http://h:1/'', ''--model'', ''foo''], stdin = cps ''hello'',
         post = unreachable\<rparr> =
     ([Read_stdin, Post ''http://h:1/api/generate'' (payload ''foo'' (cps ''hello'')) True],
      Uncaught RequestException)"
proof -
  let ?e1 = "\<lparr>argv = [''--url'', ''http://h:1'', ''--model'', ''foo''], stdin = cps ''hello'',
         post = unreachable\<rparr>"
  have a: "\<not> startswith ''http://h:1'' ''-''" "\<not> startswith ''foo'' ''-''"
    by (simp_all add: startswith_def)
  have s: "sanitize_url ''http://h:1'' = ''http://h:1/''" by code_simp
  have e: "main ?e1 =
     ([Read_stdin, Post ''http://h:1/api/generate'' (payload ''foo'' (cps ''hello'')) True],
      Uncaught RequestException)" by code_simp
  from url_normalization [OF a, of "cps ''hello''" unreachable] e show ?thesis
    by (simp add: s)
qed

section \<open>The request\<close>

text \<open>
  C2: a run that passes the resolution of the arguments reads the standard input, then
  posts once, to the normalized URL followed by \<^verbatim>\<open>api/generate\<close>, the serialization of
  \<^verbatim>\<open>{"model": m, "prompt": s}\<close>, where \<open>m\<close> is the model of the arguments and \<open>s\<close> the whole
  standard input, and asks for a streamed response; no other event of the run is a request.
  The body is ASCII, and when the input is well-formed text \<^verbatim>\<open>json.loads\<close> reads the body
  back as the object with the two members \<open>m\<close> and \<open>s\<close>.  The arguments \<^verbatim>\<open>--model m\<close>
  pass the resolution for every \<open>m\<close> that does not begin with \<^verbatim>\<open>-\<close>, with the default URL.
\<close>

theorem request_posted:
  "(resolve_arguments (argv e) = Inr cmdargs \<longrightarrow>
      (\<exists>model rest out.
            cmd_model cmdargs = Some [model]
          \<and> main e = (Read_stdin
                      # Post (sanitize_url (cmd_url cmdargs) @ ''api/generate'')
                             (payload model (stdin e)) True
                      # rest, out)
          \<and> (\<forall>ev \<in> set rest. \<not> is_post ev)
          \<and> (\<forall>c \<in> set (payload model (stdin e)). c < 128)
          \<and> (well_formed_text (stdin e) \<longrightarrow>
               json_loads (payload model (stdin e))
               = Inr (JObj [(cps ''model'', JStr (cps model)), (cps ''prompt'', JStr (stdin e))]))))
   \<and> (\<not> startswith m ''-'' \<longrightarrow>
        (\<exists>rest out.
            main \<lparr>argv = [''--model'', m], stdin = s, post = p\<rparr>
            = (Read_stdin # Post ''http://localhost:11434/api/generate'' (payload m s) True
               # rest, out)
          \<and> (\<forall>ev \<in> set rest. \<not> is_post ev)))"
proof (intro conjI impI)
  assume a: "resolve_arguments (argv e) = Inr cmdargs"
  from a obtain model where m: "cmd_model cmdargs = Some [model]"
    and r: "main e = request e (sanitize_url (cmd_url cmdargs)) model"
    by (rule main_resolved)
  from request_starts [of e "sanitize_url (cmd_url cmdargs)" model]
  obtain rest out where
    "request e (sanitize_url (cmd_url cmdargs)) model =
       (Read_stdin # Post (sanitize_url (cmd_url cmdargs) @ ''api/generate'')
                          (payload model (stdin e)) True # rest, out)"
    and "\<forall>ev \<in> set rest. \<not> is_post ev"
    by blast
  with m r payload_ascii [of model "stdin e"] payload_loads [of "stdin e" model]
  show "\<exists>model rest out.
            cmd_model cmdargs = Some [model]
          \<and> main e = (Read_stdin
                      # Post (sanitize_url (cmd_url cmdargs) @ ''api/generate'')
                             (payload model (stdin e)) True
                      # rest, out)
          \<and> (\<forall>ev \<in> set rest. \<not> is_post ev)
          \<and> (\<forall>c \<in> set (payload model (stdin e)). c < 128)
          \<and> (well_formed_text (stdin e) \<longrightarrow>
               json_loads (payload model (stdin e))
               = Inr (JObj [(cps ''model'', JStr (cps model)), (cps ''prompt'', JStr (stdin e))]))"
    by (intro exI conjI impI) simp_all
next
  assume n: "\<not> startswith m ''-''"
  let ?e = "\<lparr>argv = [''--model'', m], stdin = s, post = p\<rparr>"
  have u: "sanitize_url ''http://localhost:11434'' = ''http://localhost:11434/''"
    by (simp add: sanitize_url_def endswith_def)
  have "resolve_arguments (argv ?e) =
      Inr \<lparr>cmd_url = ''http://localhost:11434'', cmd_model = Some [m], cmd_help = None,
           cmd_non_option_arguments = Some []\<rparr>"
    using resolve_model [OF n] by simp
  then have "main ?e = request ?e (sanitize_url ''http://localhost:11434'') m"
    using main_request [of ?e _ m] by simp
  then show "\<exists>rest out.
            main ?e = (Read_stdin # Post ''http://localhost:11434/api/generate'' (payload m s) True
               # rest, out)
          \<and> (\<forall>ev \<in> set rest. \<not> is_post ev)"
    using request_starts [of ?e "''http://localhost:11434/''" m] unfolding u by simp
qed

theorem request_posted_witness:
  "main \<lparr>argv = [''--model'', ''foo''], stdin = cps ''hello'', post = unreachable\<rparr> =
     ([Read_stdin,
       Post ''http://localhost:11434/api/generate''
            (cps ''{\"model\": \"foo\", \"prompt\": \"hello\"}'') True],
      Uncaught RequestException)
   \<and> payload ''foo'' (cps ''hello'') = cps ''{\"model\": \"foo\", \"prompt\": \"hello\"}''
   \<and> json_loads (cps ''{\"model\": \"foo\", \"prompt\": \"hello\"}'')
     = Inr (JObj [(cps ''model'', JStr (cps ''foo'')), (cps ''prompt'', JStr (cps ''hello''))])"
proof -
  let ?e = "\<lparr>argv = [''--model'', ''foo''], stdin = cps ''hello'', post = unreachable\<rparr>"
  let ?c = "\<lparr>cmd_url = ''http://localhost:11434'', cmd_model = Some [''foo''], cmd_help = None,
             cmd_non_option_arguments = Some []\<rparr>"
  have n: "\<not> startswith ''foo'' ''-''"
    by (simp add: startswith_def)
  have t: "resolve_arguments (argv ?e) = Inr ?c"
    by code_simp
  have w: "well_formed_text (stdin ?e)"
    by (simp add: well_formed_cps)
  have p: "payload ''foo'' (cps ''hello'') = cps ''{\"model\": \"foo\", \"prompt\": \"hello\"}''"
    by code_simp
  have m: "main ?e = ([Read_stdin, Post ''http://localhost:11434/api/generate''
                         (cps ''{\"model\": \"foo\", \"prompt\": \"hello\"}'') True],
                      Uncaught RequestException)"
    by code_simp
  from request_posted [of ?e ?c, THEN conjunct1, THEN mp, OF t] w p
  have "json_loads (cps ''{\"model\": \"foo\", \"prompt\": \"hello\"}'')
     = Inr (JObj [(cps ''model'', JStr (cps ''foo'')), (cps ''prompt'', JStr (cps ''hello''))])"
    by auto
  with m p show ?thesis by simp
qed

section \<open>Abbreviated options\<close>



end
